theory Spec2Isabelle
  imports Complex_Main "HOL-Library.Char_ord" "HOL-Library.List_Lexorder"
    "HOL-Library.Product_Lexorder" "HOL-Library.Multiset"
begin

section \<open>Values\<close>

text \<open>
  The handler of \<^verbatim>\<open>src/database/db_handler.py\<close> receives Python dictionaries and
  lists, hands scalar values to SQLite as statement parameters, and returns either the
  tuples SQLite produces or dictionaries built from them.

  Python values are the datatype \<open>pyval\<close>; a dictionary is an association list, in
  insertion order, with string keys. Values stored in a table are \<open>sqlval\<close>, the
  storage classes of SQLite without BLOB. Python integers are HOL integers and Python
  floats are HOL reals (the handler only stores, compares and returns them); integers are
  taken to fit the 64-bit range of SQLite, and column type affinity is not modelled: a
  value is stored as it is bound.
\<close>

datatype pyval =
    PNone
  | PInt int
  | PFloat real
  | PStr string
  | PList "pyval list"
  | PTuple "pyval list"
  | PDict "(string \<times> pyval) list"

type_synonym pydict = "(string \<times> pyval) list"

datatype sqlval = SNull | SInt int | SReal real | SText string

datatype error =
    KeyError pyval
  | TypeError
  | IndexError
  | InterfaceError
  | ProgrammingError
  | OperationalError
  | IntegrityError

type_synonym 'a result = "error + 'a"

text \<open>\<^verbatim>\<open>d[k]\<close> and \<^verbatim>\<open>d.get(k)\<close> on a dictionary, \<^verbatim>\<open>k in d\<close>.\<close>

definition get_item :: "pydict \<Rightarrow> string \<Rightarrow> pyval result" where
  "get_item d k = (case map_of d k of None \<Rightarrow> Inl (KeyError (PStr k)) | Some v \<Rightarrow> Inr v)"

definition dict_get :: "pydict \<Rightarrow> string \<Rightarrow> pyval" where
  "dict_get d k = (case map_of d k of None \<Rightarrow> PNone | Some v \<Rightarrow> v)"

definition has_key :: "pydict \<Rightarrow> string \<Rightarrow> bool" where
  "has_key d k = (map_of d k \<noteq> None)"

text \<open>\<^verbatim>\<open>v[k]\<close> with a string key on any value: only a dictionary accepts it.\<close>

definition py_getitem :: "pyval \<Rightarrow> string \<Rightarrow> pyval result" where
  "py_getitem v k = (case v of PDict d \<Rightarrow> get_item d k | _ \<Rightarrow> Inl TypeError)"

text \<open>\<^verbatim>\<open>v[i]\<close> with a literal index \<open>i \<ge> 0\<close>.\<close>

definition py_index :: "pyval \<Rightarrow> nat \<Rightarrow> pyval result" where
  "py_index v i =
     (case v of
        PList xs \<Rightarrow> (if i < length xs then Inr (xs ! i) else Inl IndexError)
      | PTuple xs \<Rightarrow> (if i < length xs then Inr (xs ! i) else Inl IndexError)
      | PStr s \<Rightarrow> (if i < length s then Inr (PStr [s ! i]) else Inl IndexError)
      | PDict d \<Rightarrow> Inl (KeyError (PInt (int i)))
      | _ \<Rightarrow> Inl TypeError)"

text \<open>\<^verbatim>\<open>for x in v\<close>: the elements a value yields when iterated.\<close>

definition py_iter :: "pyval \<Rightarrow> pyval list result" where
  "py_iter v =
     (case v of
        PList xs \<Rightarrow> Inr xs
      | PTuple xs \<Rightarrow> Inr xs
      | PStr s \<Rightarrow> Inr (map (\<lambda>ch. PStr [ch]) s)
      | PDict d \<Rightarrow> Inr (map (\<lambda>kv. PStr (fst kv)) d)
      | _ \<Rightarrow> Inl TypeError)"

text \<open>
  Parameter binding of the \<^verbatim>\<open>sqlite3\<close> module: None, int, float and str are
  accepted, any other type is refused before the statement runs.
\<close>

definition bind_param :: "pyval \<Rightarrow> sqlval result" where
  "bind_param v =
     (case v of
        PNone \<Rightarrow> Inr SNull
      | PInt i \<Rightarrow> Inr (SInt i)
      | PFloat r \<Rightarrow> Inr (SReal r)
      | PStr s \<Rightarrow> Inr (SText s)
      | _ \<Rightarrow> Inl InterfaceError)"

fun bind_params :: "pyval list \<Rightarrow> sqlval list result" where
  "bind_params [] = Inr []"
| "bind_params (v # vs) =
     (case bind_param v of
        Inl e \<Rightarrow> Inl e
      | Inr w \<Rightarrow> (case bind_params vs of Inl e \<Rightarrow> Inl e | Inr ws \<Rightarrow> Inr (w # ws)))"

text \<open>What Python receives for a stored value.\<close>

definition to_py :: "sqlval \<Rightarrow> pyval" where
  "to_py v = (case v of SNull \<Rightarrow> PNone | SInt i \<Rightarrow> PInt i | SReal r \<Rightarrow> PFloat r
                | SText s \<Rightarrow> PStr s)"

text \<open>
  Comparison of SQLite: \<open>NULL\<close> equals nothing, integers and reals compare as numbers,
  text compares byte by byte, and in \<^verbatim>\<open>ORDER BY\<close> \<open>NULL\<close> comes before numbers and
  numbers before text.
\<close>

definition sql_eq :: "sqlval \<Rightarrow> sqlval \<Rightarrow> bool" where
  "sql_eq a b =
     (case (a, b) of
        (SInt i, SInt j) \<Rightarrow> i = j
      | (SInt i, SReal r) \<Rightarrow> of_int i = r
      | (SReal r, SInt j) \<Rightarrow> r = of_int j
      | (SReal r, SReal s) \<Rightarrow> r = s
      | (SText s, SText t) \<Rightarrow> s = t
      | _ \<Rightarrow> False)"

definition sort_rank :: "sqlval \<Rightarrow> nat \<times> real \<times> string" where
  "sort_rank v =
     (case v of
        SNull \<Rightarrow> (0, 0, [])
      | SInt i \<Rightarrow> (1, of_int i, [])
      | SReal r \<Rightarrow> (1, r, [])
      | SText s \<Rightarrow> (2, 0, s))"

definition sql_le :: "sqlval \<Rightarrow> sqlval \<Rightarrow> bool" where
  "sql_le a b = (a \<noteq> SNull \<and> b \<noteq> SNull \<and> sort_rank a \<le> sort_rank b)"

section \<open>Tables\<close>

record scene =
  scene_id :: int
  timestamp :: sqlval
  latitude :: sqlval
  longitude :: sqlval
  resolution :: sqlval
  camera_id :: sqlval
  media_path :: sqlval

record detection =
  detection_id :: int
  det_scene_id :: sqlval
  det_class_label :: sqlval
  det_confidence :: sqlval
  det_x_min :: sqlval
  det_y_min :: sqlval
  det_x_max :: sqlval
  det_y_max :: sqlval

record annotation =
  annotation_id :: int
  ann_scene_id :: sqlval
  label_type :: sqlval
  ann_description :: sqlval
  ann_class_label :: sqlval
  ann_x_min :: sqlval
  ann_y_min :: sqlval
  ann_x_max :: sqlval
  ann_y_max :: sqlval
  annotated_by :: sqlval

record scene_description =
  description_id :: int
  desc_scene_id :: sqlval
  description :: sqlval
  desc_confidence :: sqlval
  model_version :: sqlval

record dataset =
  ds_scene_id :: sqlval
  dataset_type :: sqlval

text \<open>
  The database: the rows of the five tables in insertion order, and for each table with
  a primary key the largest key handed out so far.
\<close>

record db =
  scenes :: "scene list"
  detections :: "detection list"
  annotations :: "annotation list"
  scene_descriptions :: "scene_description list"
  datasets :: "dataset list"
  scenes_seq :: int
  detections_seq :: int
  annotations_seq :: int
  descriptions_seq :: int

text \<open>
  Modelled from the spec: the schema script of \<^verbatim>\<open>_create_tables\<close>, of which the source
  holds only a placeholder comment. The spec gives five tables, their columns in
  declaration order, an auto-assigned integer primary key that is never reused, and a
  foreign key from \<open>detections\<close>, \<open>annotations\<close>, \<open>scene_descriptions\<close> and
  \<open>datasets\<close> to \<open>scenes\<close> that is enforced on insert and cascades on delete. It names
  no \<open>NOT NULL\<close>, \<open>UNIQUE\<close> or \<open>CHECK\<close> constraint and no action on update, so none
  is modelled and a change of a referenced key follows the default of SQL (it is refused).
\<close>

definition scenes_columns :: "string list" where
  "scenes_columns = [''scene_id'', ''timestamp'', ''latitude'', ''longitude'',
     ''resolution'', ''camera_id'', ''media_path'']"

definition detections_columns :: "string list" where
  "detections_columns = [''detection_id'', ''scene_id'', ''class_label'', ''confidence'',
     ''x_min'', ''y_min'', ''x_max'', ''y_max'']"

definition annotations_columns :: "string list" where
  "annotations_columns = [''annotation_id'', ''scene_id'', ''label_type'', ''description'',
     ''class_label'', ''x_min'', ''y_min'', ''x_max'', ''y_max'', ''annotated_by'']"

definition empty_db :: db where
  "empty_db = \<lparr>scenes = [], detections = [], annotations = [], scene_descriptions = [],
     datasets = [], scenes_seq = 0, detections_seq = 0, annotations_seq = 0,
     descriptions_seq = 0\<rparr>"

definition next_rowid :: "int \<Rightarrow> int list \<Rightarrow> int" where
  "next_rowid seq ids = fold max ids seq + 1"

text \<open>
  Modelled from the spec: the foreign key of the schema script, which the source does not
  hold. A row of a dependent table references the scene whose key equals its
  \<open>scene_id\<close>; the engine accepts the row when that is \<open>NULL\<close> or such a scene is
  stored. SQLite checks this only while foreign keys are switched on for the connection;
  the spec has them enforced, so the switch is taken to be on.
\<close>

definition references_scene :: "sqlval \<Rightarrow> int \<Rightarrow> bool" where
  "references_scene v sid = sql_eq v (SInt sid)"

definition parent_exists :: "sqlval \<Rightarrow> db \<Rightarrow> bool" where
  "parent_exists v d = (v = SNull \<or> list_ex (\<lambda>s. references_scene v (scene_id s)) (scenes d))"

section \<open>Statements\<close>

text \<open>
  Each SQL text of the handler is a function from the bound parameters and the database
  to the new database, or the error the engine reports. A row inserted into a table with
  a primary key takes a key larger than every key in the table and every key handed out
  before.
\<close>

definition sql_insert_scene :: "sqlval list \<Rightarrow> db \<Rightarrow> db result" where
  "sql_insert_scene vs d =
     (case vs of
        [ts, lat, lon, res, cam, mp] \<Rightarrow>
          (let i = next_rowid (scenes_seq d) (map scene_id (scenes d))
           in Inr (d\<lparr>scenes := scenes d @
                 [\<lparr>scene_id = i, timestamp = ts, latitude = lat, longitude = lon,
                   resolution = res, camera_id = cam, media_path = mp\<rparr>],
                 scenes_seq := i\<rparr>))
      | _ \<Rightarrow> Inl ProgrammingError)"

definition sql_insert_detection :: "sqlval list \<Rightarrow> db \<Rightarrow> db result" where
  "sql_insert_detection vs d =
     (case vs of
        [sid, cl, conf, x0, y0, x1, y1] \<Rightarrow>
          (if parent_exists sid d then
             (let i = next_rowid (detections_seq d) (map detection_id (detections d))
              in Inr (d\<lparr>detections := detections d @
                    [\<lparr>detection_id = i, det_scene_id = sid, det_class_label = cl,
                      det_confidence = conf, det_x_min = x0, det_y_min = y0,
                      det_x_max = x1, det_y_max = y1\<rparr>],
                    detections_seq := i\<rparr>))
           else Inl IntegrityError)
      | _ \<Rightarrow> Inl ProgrammingError)"

definition sql_insert_annotation :: "sqlval list \<Rightarrow> db \<Rightarrow> db result" where
  "sql_insert_annotation vs d =
     (case vs of
        [sid, lt, ds, cl, x0, y0, x1, y1, by] \<Rightarrow>
          (if parent_exists sid d then
             (let i = next_rowid (annotations_seq d) (map annotation_id (annotations d))
              in Inr (d\<lparr>annotations := annotations d @
                    [\<lparr>annotation_id = i, ann_scene_id = sid, label_type = lt,
                      ann_description = ds, ann_class_label = cl, ann_x_min = x0,
                      ann_y_min = y0, ann_x_max = x1, ann_y_max = y1, annotated_by = by\<rparr>],
                    annotations_seq := i\<rparr>))
           else Inl IntegrityError)
      | _ \<Rightarrow> Inl ProgrammingError)"

definition sql_insert_description :: "sqlval list \<Rightarrow> db \<Rightarrow> db result" where
  "sql_insert_description vs d =
     (case vs of
        [sid, ds, conf, mv] \<Rightarrow>
          (if parent_exists sid d then
             (let i = next_rowid (descriptions_seq d)
                        (map description_id (scene_descriptions d))
              in Inr (d\<lparr>scene_descriptions := scene_descriptions d @
                    [\<lparr>description_id = i, desc_scene_id = sid, description = ds,
                      desc_confidence = conf, model_version = mv\<rparr>],
                    descriptions_seq := i\<rparr>))
           else Inl IntegrityError)
      | _ \<Rightarrow> Inl ProgrammingError)"

definition sql_insert_dataset :: "sqlval list \<Rightarrow> db \<Rightarrow> db result" where
  "sql_insert_dataset vs d =
     (case vs of
        [sid, ty] \<Rightarrow>
          (if parent_exists sid d then
             Inr (d\<lparr>datasets := datasets d @ [\<lparr>ds_scene_id = sid, dataset_type = ty\<rparr>]\<rparr>)
           else Inl IntegrityError)
      | _ \<Rightarrow> Inl ProgrammingError)"

section \<open>The connection\<close>

text \<open>
  \<^verbatim>\<open>sqlite3.connect\<close> gives one connection. A statement that changes data opens a
  transaction if none is open; the connection then sees its own changes (\<open>working\<close>)
  while the file holds the last committed state (\<open>committed\<close>). The block
  \<^verbatim>\<open>with self.conn:\<close> commits when its body ends normally and rolls back when the body
  raises; it does not nest: an inner block commits the whole open transaction.
\<close>

record conn =
  committed :: db
  working :: db

definition commit :: "conn \<Rightarrow> conn" where
  "commit c = c\<lparr>committed := working c\<rparr>"

definition rollback :: "conn \<Rightarrow> conn" where
  "rollback c = c\<lparr>working := committed c\<rparr>"

definition with_conn :: "(conn \<Rightarrow> 'a result \<times> conn) \<Rightarrow> conn \<Rightarrow> 'a result \<times> conn" where
  "with_conn body c =
     (case body c of
        (Inl e, c') \<Rightarrow> (Inl e, rollback c')
      | (Inr x, c') \<Rightarrow> (Inr x, commit c'))"

definition execute ::
  "(sqlval list \<Rightarrow> db \<Rightarrow> db result) \<Rightarrow> pyval list \<Rightarrow> conn \<Rightarrow> unit result \<times> conn" where
  "execute stmt params c =
     (case bind_params params of
        Inl e \<Rightarrow> (Inl e, c)
      | Inr vs \<Rightarrow>
          (case stmt vs (working c) of
             Inl e \<Rightarrow> (Inl e, c)
           | Inr d' \<Rightarrow> (Inr (), c\<lparr>working := d'\<rparr>)))"

fun executemany ::
  "(sqlval list \<Rightarrow> db \<Rightarrow> db result) \<Rightarrow> pyval list list \<Rightarrow> conn \<Rightarrow> unit result \<times> conn" where
  "executemany stmt [] c = (Inr (), c)"
| "executemany stmt (p # ps) c =
     (case execute stmt p c of
        (Inl e, c') \<Rightarrow> (Inl e, c')
      | (Inr u, c') \<Rightarrow> executemany stmt ps c')"

text \<open>
  \<^verbatim>\<open>SceneDatabase(db_path)\<close> on a file that does not exist yet: the tables are created
  empty.
\<close>

definition new_database :: conn where
  "new_database = \<lparr>committed = empty_db, working = empty_db\<rparr>"

section \<open>Write operations\<close>

definition add_scene :: "pydict \<Rightarrow> conn \<Rightarrow> int result \<times> conn" where
  "add_scene metadata c =
     (case get_item metadata ''timestamp'' of Inl e \<Rightarrow> (Inl e, c) | Inr ts \<Rightarrow>
      case get_item metadata ''camera_id'' of Inl e \<Rightarrow> (Inl e, c) | Inr cam \<Rightarrow>
      case get_item metadata ''media_path'' of Inl e \<Rightarrow> (Inl e, c) | Inr mp \<Rightarrow>
      case execute sql_insert_scene
             [ts, dict_get metadata ''latitude'', dict_get metadata ''longitude'',
              dict_get metadata ''resolution'', cam, mp] c of
        (Inl e, c') \<Rightarrow> (Inl e, c')
      | (Inr u, c') \<Rightarrow> (Inr (scenes_seq (working c')), c'))"

text \<open>The tuple the list comprehension of \<^verbatim>\<open>add_detections\<close> builds for one record.\<close>

definition detection_values :: "int \<Rightarrow> pyval \<Rightarrow> pyval list result" where
  "detection_values sid d =
     (case py_getitem d ''class'' of Inl e \<Rightarrow> Inl e | Inr cl \<Rightarrow>
      case py_getitem d ''confidence'' of Inl e \<Rightarrow> Inl e | Inr conf \<Rightarrow>
      case py_getitem d ''bbox'' of Inl e \<Rightarrow> Inl e | Inr bb \<Rightarrow>
      case py_index bb 0 of Inl e \<Rightarrow> Inl e | Inr x0 \<Rightarrow>
      case py_index bb 1 of Inl e \<Rightarrow> Inl e | Inr y0 \<Rightarrow>
      case py_index bb 2 of Inl e \<Rightarrow> Inl e | Inr x1 \<Rightarrow>
      case py_index bb 3 of Inl e \<Rightarrow> Inl e | Inr y1 \<Rightarrow>
        Inr [PInt sid, cl, conf, x0, y0, x1, y1])"

fun all_detection_values :: "int \<Rightarrow> pyval list \<Rightarrow> pyval list list result" where
  "all_detection_values sid [] = Inr []"
| "all_detection_values sid (d # ds) =
     (case detection_values sid d of
        Inl e \<Rightarrow> Inl e
      | Inr t \<Rightarrow>
          (case all_detection_values sid ds of Inl e \<Rightarrow> Inl e | Inr ts \<Rightarrow> Inr (t # ts)))"

definition add_detections :: "int \<Rightarrow> pyval list \<Rightarrow> conn \<Rightarrow> unit result \<times> conn" where
  "add_detections sid dets c =
     (case all_detection_values sid dets of
        Inl e \<Rightarrow> (Inl e, c)
      | Inr vals \<Rightarrow> with_conn (executemany sql_insert_detection vals) c)"

definition add_annotation :: "int \<Rightarrow> pydict \<Rightarrow> conn \<Rightarrow> unit result \<times> conn" where
  "add_annotation sid ann c =
     (case get_item ann ''label_type'' of
        Inl e \<Rightarrow> (Inl e, c)
      | Inr lt \<Rightarrow>
          with_conn (execute sql_insert_annotation
            [PInt sid, lt, dict_get ann ''description'', dict_get ann ''class_label'',
             dict_get ann ''x_min'', dict_get ann ''y_min'', dict_get ann ''x_max'',
             dict_get ann ''y_max'', dict_get ann ''annotated_by'']) c)"

definition assign_to_dataset :: "int list \<Rightarrow> string \<Rightarrow> conn \<Rightarrow> unit result \<times> conn" where
  "assign_to_dataset scene_ids dtype c =
     with_conn (executemany sql_insert_dataset
       (map (\<lambda>sid. [PInt sid, PStr dtype]) scene_ids)) c"

definition add_scene_description ::
  "int \<Rightarrow> pyval \<Rightarrow> pyval \<Rightarrow> pyval \<Rightarrow> conn \<Rightarrow> unit result \<times> conn" where
  "add_scene_description sid descr conf mv c =
     with_conn (execute sql_insert_description [PInt sid, descr, conf, mv]) c"

text \<open>The body of the loop of \<^verbatim>\<open>incremental_update\<close> for one input record.\<close>

definition update_one :: "pydict \<Rightarrow> conn \<Rightarrow> unit result \<times> conn" where
  "update_one scn c =
     (case get_item scn ''metadata'' of Inl e \<Rightarrow> (Inl e, c) | Inr md \<Rightarrow>
      case (case md of PDict metadata \<Rightarrow> add_scene metadata c | _ \<Rightarrow> (Inl TypeError, c)) of
        (Inl e, c1) \<Rightarrow> (Inl e, c1)
      | (Inr sid, c1) \<Rightarrow>
      case (if has_key scn ''detections'' then
              (case py_iter (dict_get scn ''detections'') of
                 Inl e \<Rightarrow> (Inl e, c1)
               | Inr dets \<Rightarrow> add_detections sid dets c1)
            else (Inr (), c1)) of
        (Inl e, c2) \<Rightarrow> (Inl e, c2)
      | (Inr u, c2) \<Rightarrow>
      if has_key scn ''description'' then
        (case get_item scn ''description'' of Inl e \<Rightarrow> (Inl e, c2) | Inr descr \<Rightarrow>
         case get_item scn ''confidence'' of Inl e \<Rightarrow> (Inl e, c2) | Inr conf \<Rightarrow>
         case get_item scn ''model_version'' of Inl e \<Rightarrow> (Inl e, c2) | Inr mv \<Rightarrow>
           add_scene_description sid descr conf mv c2)
      else (Inr (), c2))"

fun update_all :: "pydict list \<Rightarrow> conn \<Rightarrow> unit result \<times> conn" where
  "update_all [] c = (Inr (), c)"
| "update_all (scn # rest) c =
     (case update_one scn c of
        (Inl e, c') \<Rightarrow> (Inl e, c')
      | (Inr u, c') \<Rightarrow> update_all rest c')"

definition incremental_update :: "pydict list \<Rightarrow> conn \<Rightarrow> unit result \<times> conn" where
  "incremental_update new_scenes c = with_conn (update_all new_scenes) c"

definition create_scene :: "pydict \<Rightarrow> conn \<Rightarrow> int result \<times> conn" where
  "create_scene metadata c = add_scene metadata c"

section \<open>Update and delete\<close>

text \<open>
  \<^verbatim>\<open>UPDATE t SET k1 = ?, ..., kn = ? WHERE id = ?\<close> is built from the keys of the
  update dictionary, which are taken to be plain names. With no key the text is not a
  statement, and a key that is no column of the table is refused when the statement is
  prepared, before any parameter is bound. The engine matches a name to a column without
  regard to the case of its letters (\<open>column_name\<close>). Of two assignments to one column
  the later one counts. A primary key takes integers only and stays unique; a referenced
  scene key cannot be changed away, and a foreign key can only be set to an existing
  scene.
\<close>

definition ascii_lower :: "char \<Rightarrow> char" where
  "ascii_lower ch =
     (if CHR ''A'' \<le> ch \<and> ch \<le> CHR ''Z'' then char_of (of_char ch + (32::nat)) else ch)"

definition column_name :: "string \<Rightarrow> string" where
  "column_name k = map ascii_lower k"

definition prepare_update :: "string list \<Rightarrow> string list \<Rightarrow> error option" where
  "prepare_update cols keys =
     (if keys = [] then Some OperationalError
      else if \<not> list_all (\<lambda>k. k \<in> set cols) keys then Some OperationalError
      else None)"

definition execute_prepared ::
  "error option \<Rightarrow> (sqlval list \<Rightarrow> db \<Rightarrow> db result) \<Rightarrow> pyval list \<Rightarrow> conn
     \<Rightarrow> unit result \<times> conn" where
  "execute_prepared prep stmt params c =
     (case prep of Some e \<Rightarrow> (Inl e, c) | None \<Rightarrow> execute stmt params c)"

fun assign_columns ::
  "(string \<Rightarrow> sqlval \<Rightarrow> 'r \<Rightarrow> 'r option) \<Rightarrow> (string \<times> sqlval) list \<Rightarrow> 'r \<Rightarrow> 'r option" where
  "assign_columns set_col [] r = Some r"
| "assign_columns set_col (kv # rest) r =
     (case set_col (fst kv) (snd kv) r of
        None \<Rightarrow> None
      | Some r' \<Rightarrow> assign_columns set_col rest r')"

fun update_where :: "('r \<Rightarrow> bool) \<Rightarrow> ('r \<Rightarrow> 'r option) \<Rightarrow> 'r list \<Rightarrow> 'r list option" where
  "update_where hit f [] = Some []"
| "update_where hit f (r # rs) =
     (case (if hit r then f r else Some r) of
        None \<Rightarrow> None
      | Some r' \<Rightarrow>
          (case update_where hit f rs of None \<Rightarrow> None | Some rs' \<Rightarrow> Some (r' # rs')))"

definition set_scene_column :: "string \<Rightarrow> sqlval \<Rightarrow> scene \<Rightarrow> scene option" where
  "set_scene_column k v r =
     (if k = ''scene_id'' then (case v of SInt j \<Rightarrow> Some (r\<lparr>scene_id := j\<rparr>) | _ \<Rightarrow> None)
      else if k = ''timestamp'' then Some (r\<lparr>timestamp := v\<rparr>)
      else if k = ''latitude'' then Some (r\<lparr>latitude := v\<rparr>)
      else if k = ''longitude'' then Some (r\<lparr>longitude := v\<rparr>)
      else if k = ''resolution'' then Some (r\<lparr>resolution := v\<rparr>)
      else if k = ''camera_id'' then Some (r\<lparr>camera_id := v\<rparr>)
      else if k = ''media_path'' then Some (r\<lparr>media_path := v\<rparr>)
      else None)"

definition set_detection_column :: "string \<Rightarrow> sqlval \<Rightarrow> detection \<Rightarrow> detection option" where
  "set_detection_column k v r =
     (if k = ''detection_id'' then
        (case v of SInt j \<Rightarrow> Some (r\<lparr>detection_id := j\<rparr>) | _ \<Rightarrow> None)
      else if k = ''scene_id'' then Some (r\<lparr>det_scene_id := v\<rparr>)
      else if k = ''class_label'' then Some (r\<lparr>det_class_label := v\<rparr>)
      else if k = ''confidence'' then Some (r\<lparr>det_confidence := v\<rparr>)
      else if k = ''x_min'' then Some (r\<lparr>det_x_min := v\<rparr>)
      else if k = ''y_min'' then Some (r\<lparr>det_y_min := v\<rparr>)
      else if k = ''x_max'' then Some (r\<lparr>det_x_max := v\<rparr>)
      else if k = ''y_max'' then Some (r\<lparr>det_y_max := v\<rparr>)
      else None)"

definition set_annotation_column :: "string \<Rightarrow> sqlval \<Rightarrow> annotation \<Rightarrow> annotation option" where
  "set_annotation_column k v r =
     (if k = ''annotation_id'' then
        (case v of SInt j \<Rightarrow> Some (r\<lparr>annotation_id := j\<rparr>) | _ \<Rightarrow> None)
      else if k = ''scene_id'' then Some (r\<lparr>ann_scene_id := v\<rparr>)
      else if k = ''label_type'' then Some (r\<lparr>label_type := v\<rparr>)
      else if k = ''description'' then Some (r\<lparr>ann_description := v\<rparr>)
      else if k = ''class_label'' then Some (r\<lparr>ann_class_label := v\<rparr>)
      else if k = ''x_min'' then Some (r\<lparr>ann_x_min := v\<rparr>)
      else if k = ''y_min'' then Some (r\<lparr>ann_y_min := v\<rparr>)
      else if k = ''x_max'' then Some (r\<lparr>ann_x_max := v\<rparr>)
      else if k = ''y_max'' then Some (r\<lparr>ann_y_max := v\<rparr>)
      else if k = ''annotated_by'' then Some (r\<lparr>annotated_by := v\<rparr>)
      else None)"

text \<open>The rows that referenced the key \<open>idv\<close> still have a parent in \<open>d\<close>.\<close>

definition children_have_parent :: "sqlval \<Rightarrow> db \<Rightarrow> bool" where
  "children_have_parent idv d =
     (list_all (\<lambda>x. \<not> sql_eq (det_scene_id x) idv \<or> parent_exists (det_scene_id x) d)
        (detections d) \<and>
      list_all (\<lambda>x. \<not> sql_eq (ann_scene_id x) idv \<or> parent_exists (ann_scene_id x) d)
        (annotations d) \<and>
      list_all (\<lambda>x. \<not> sql_eq (desc_scene_id x) idv \<or> parent_exists (desc_scene_id x) d)
        (scene_descriptions d) \<and>
      list_all (\<lambda>x. \<not> sql_eq (ds_scene_id x) idv \<or> parent_exists (ds_scene_id x) d)
        (datasets d))"

definition sql_update_scenes :: "string list \<Rightarrow> sqlval list \<Rightarrow> db \<Rightarrow> db result" where
  "sql_update_scenes keys vs d =
     (if length vs \<noteq> length keys + 1 then Inl ProgrammingError
      else
        (let idv = last vs;
             hit = (\<lambda>r. sql_eq (SInt (scene_id r)) idv)
         in case update_where hit (assign_columns set_scene_column (zip keys (butlast vs)))
                   (scenes d) of
              None \<Rightarrow> Inl IntegrityError
            | Some rows' \<Rightarrow>
                (let d' = d\<lparr>scenes := rows'\<rparr>
                 in if ''scene_id'' \<in> set keys \<and> list_ex hit (scenes d) then
                      (if \<not> distinct (map scene_id rows') then Inl IntegrityError
                       else if \<not> children_have_parent idv d' then Inl IntegrityError
                       else Inr d')
                    else Inr d')))"

definition sql_update_detections :: "string list \<Rightarrow> sqlval list \<Rightarrow> db \<Rightarrow> db result" where
  "sql_update_detections keys vs d =
     (if length vs \<noteq> length keys + 1 then Inl ProgrammingError
      else
        (let idv = last vs;
             hit = (\<lambda>r. sql_eq (SInt (detection_id r)) idv);
             asg = zip keys (butlast vs)
         in case update_where hit (assign_columns set_detection_column asg) (detections d) of
              None \<Rightarrow> Inl IntegrityError
            | Some rows' \<Rightarrow>
                if list_ex hit (detections d) \<and>
                   ((''detection_id'' \<in> set keys \<and> \<not> distinct (map detection_id rows')) \<or>
                    (case map_of (rev asg) ''scene_id'' of
                       None \<Rightarrow> False
                     | Some v \<Rightarrow> \<not> parent_exists v d))
                then Inl IntegrityError
                else Inr (d\<lparr>detections := rows'\<rparr>)))"

definition sql_update_annotations :: "string list \<Rightarrow> sqlval list \<Rightarrow> db \<Rightarrow> db result" where
  "sql_update_annotations keys vs d =
     (if length vs \<noteq> length keys + 1 then Inl ProgrammingError
      else
        (let idv = last vs;
             hit = (\<lambda>r. sql_eq (SInt (annotation_id r)) idv);
             asg = zip keys (butlast vs)
         in case update_where hit (assign_columns set_annotation_column asg)
                   (annotations d) of
              None \<Rightarrow> Inl IntegrityError
            | Some rows' \<Rightarrow>
                if list_ex hit (annotations d) \<and>
                   ((''annotation_id'' \<in> set keys \<and> \<not> distinct (map annotation_id rows')) \<or>
                    (case map_of (rev asg) ''scene_id'' of
                       None \<Rightarrow> False
                     | Some v \<Rightarrow> \<not> parent_exists v d))
                then Inl IntegrityError
                else Inr (d\<lparr>annotations := rows'\<rparr>)))"

text \<open>
  Modelled from the spec: the cascade on delete of the schema script, which the source
  does not hold. \<^verbatim>\<open>DELETE FROM scenes WHERE scene_id = ?\<close>, the whole statement of
  \<^verbatim>\<open>delete_scene\<close>, removes the rows with that key; the cascade removes with them
  every row of the four dependent tables that references a removed row.
\<close>

definition sql_delete_scene :: "sqlval list \<Rightarrow> db \<Rightarrow> db result" where
  "sql_delete_scene vs d =
     (case vs of
        [idv] \<Rightarrow>
          (let hit = (\<lambda>r. sql_eq (SInt (scene_id r)) idv);
               gone = filter hit (scenes d);
               orphan = (\<lambda>v. list_ex (\<lambda>r. references_scene v (scene_id r)) gone)
           in Inr (d\<lparr>scenes := filter (\<lambda>r. \<not> hit r) (scenes d),
                    detections := filter (\<lambda>x. \<not> orphan (det_scene_id x)) (detections d),
                    annotations := filter (\<lambda>x. \<not> orphan (ann_scene_id x)) (annotations d),
                    scene_descriptions :=
                      filter (\<lambda>x. \<not> orphan (desc_scene_id x)) (scene_descriptions d),
                    datasets := filter (\<lambda>x. \<not> orphan (ds_scene_id x)) (datasets d)\<rparr>))
      | _ \<Rightarrow> Inl ProgrammingError)"

definition sql_delete_detection :: "sqlval list \<Rightarrow> db \<Rightarrow> db result" where
  "sql_delete_detection vs d =
     (case vs of
        [idv] \<Rightarrow>
          Inr (d\<lparr>detections :=
                 filter (\<lambda>r. \<not> sql_eq (SInt (detection_id r)) idv) (detections d)\<rparr>)
      | _ \<Rightarrow> Inl ProgrammingError)"

definition sql_delete_annotation :: "sqlval list \<Rightarrow> db \<Rightarrow> db result" where
  "sql_delete_annotation vs d =
     (case vs of
        [idv] \<Rightarrow>
          Inr (d\<lparr>annotations :=
                 filter (\<lambda>r. \<not> sql_eq (SInt (annotation_id r)) idv) (annotations d)\<rparr>)
      | _ \<Rightarrow> Inl ProgrammingError)"

definition update_scene :: "int \<Rightarrow> pydict \<Rightarrow> conn \<Rightarrow> unit result \<times> conn" where
  "update_scene sid updates c =
     with_conn (execute_prepared
       (prepare_update scenes_columns (map (\<lambda>kv. column_name (fst kv)) updates))
       (sql_update_scenes (map (\<lambda>kv. column_name (fst kv)) updates))
       (map snd updates @ [PInt sid])) c"

definition delete_scene :: "int \<Rightarrow> conn \<Rightarrow> unit result \<times> conn" where
  "delete_scene sid c = with_conn (execute sql_delete_scene [PInt sid]) c"

definition update_detection :: "int \<Rightarrow> pydict \<Rightarrow> conn \<Rightarrow> unit result \<times> conn" where
  "update_detection did updates c =
     with_conn (execute_prepared
       (prepare_update detections_columns (map (\<lambda>kv. column_name (fst kv)) updates))
       (sql_update_detections (map (\<lambda>kv. column_name (fst kv)) updates))
       (map snd updates @ [PInt did])) c"

definition delete_detection :: "int \<Rightarrow> conn \<Rightarrow> unit result \<times> conn" where
  "delete_detection did c = with_conn (execute sql_delete_detection [PInt did]) c"

definition update_annotation :: "int \<Rightarrow> pydict \<Rightarrow> conn \<Rightarrow> unit result \<times> conn" where
  "update_annotation aid updates c =
     with_conn (execute_prepared
       (prepare_update annotations_columns (map (\<lambda>kv. column_name (fst kv)) updates))
       (sql_update_annotations (map (\<lambda>kv. column_name (fst kv)) updates))
       (map snd updates @ [PInt aid])) c"

definition delete_annotation :: "int \<Rightarrow> conn \<Rightarrow> unit result \<times> conn" where
  "delete_annotation aid c = with_conn (execute sql_delete_annotation [PInt aid]) c"

section \<open>Read operations\<close>

text \<open>
  A query yields each row as a tuple of the column values in declaration order;
  \<^verbatim>\<open>cursor.description\<close> lists the column names in the same order. No statement here
  changes data, so a read leaves the connection as it was and sees \<open>working\<close>.
\<close>

definition scene_tuple :: "scene \<Rightarrow> pyval list" where
  "scene_tuple r = map to_py [SInt (scene_id r), timestamp r, latitude r, longitude r,
     resolution r, camera_id r, media_path r]"

definition detection_tuple :: "detection \<Rightarrow> pyval list" where
  "detection_tuple r = map to_py [SInt (detection_id r), det_scene_id r, det_class_label r,
     det_confidence r, det_x_min r, det_y_min r, det_x_max r, det_y_max r]"

definition annotation_tuple :: "annotation \<Rightarrow> pyval list" where
  "annotation_tuple r = map to_py [SInt (annotation_id r), ann_scene_id r, label_type r,
     ann_description r, ann_class_label r, ann_x_min r, ann_y_min r, ann_x_max r,
     ann_y_max r, annotated_by r]"

text \<open>\<^verbatim>\<open>d[k] = v\<close>: a new key goes to the end, an old key keeps its place.\<close>

definition dict_set :: "pydict \<Rightarrow> string \<Rightarrow> pyval \<Rightarrow> pydict" where
  "dict_set d k v =
     (if has_key d k then map (\<lambda>kv. if fst kv = k then (k, v) else kv) d else d @ [(k, v)])"

definition row_to_dict :: "pyval list \<Rightarrow> string list \<Rightarrow> pydict result" where
  "row_to_dict row descr =
     (if length row \<le> length descr then
        Inr (fold (\<lambda>iv d. dict_set d (descr ! fst iv) (snd iv)) (enumerate 0 row) [])
      else Inl IndexError)"

fun rows_to_dicts :: "pyval list list \<Rightarrow> string list \<Rightarrow> pyval list result" where
  "rows_to_dicts [] descr = Inr []"
| "rows_to_dicts (row # rows) descr =
     (case row_to_dict row descr of
        Inl e \<Rightarrow> Inl e
      | Inr d \<Rightarrow>
          (case rows_to_dicts rows descr of Inl e \<Rightarrow> Inl e | Inr ds \<Rightarrow> Inr (PDict d # ds)))"

definition fetchone_dict :: "pyval list list \<Rightarrow> string list \<Rightarrow> pyval result" where
  "fetchone_dict rows descr =
     (case rows of
        [] \<Rightarrow> Inr PNone
      | row # rest \<Rightarrow> (case row_to_dict row descr of Inl e \<Rightarrow> Inl e | Inr d \<Rightarrow> Inr (PDict d)))"

definition fetchall_dicts :: "pyval list list \<Rightarrow> string list \<Rightarrow> pyval result" where
  "fetchall_dicts rows descr =
     (case rows_to_dicts rows descr of Inl e \<Rightarrow> Inl e | Inr ds \<Rightarrow> Inr (PList ds))"

definition get_scene :: "int \<Rightarrow> conn \<Rightarrow> pyval result" where
  "get_scene sid c =
     fetchone_dict (map scene_tuple (filter (\<lambda>r. scene_id r = sid) (scenes (working c))))
       scenes_columns"

definition get_detection :: "int \<Rightarrow> conn \<Rightarrow> pyval result" where
  "get_detection did c =
     fetchone_dict
       (map detection_tuple (filter (\<lambda>r. detection_id r = did) (detections (working c))))
       detections_columns"

definition get_annotation :: "int \<Rightarrow> conn \<Rightarrow> pyval result" where
  "get_annotation aid c =
     fetchone_dict
       (map annotation_tuple (filter (\<lambda>r. annotation_id r = aid) (annotations (working c))))
       annotations_columns"

text \<open>
  \<^verbatim>\<open>ORDER BY timestamp DESC LIMIT ?\<close>: the rows from the greatest timestamp down, rows
  of equal timestamp in the order of the table, and of these the first \<open>limit\<close>; a
  negative limit is no limit.
\<close>

definition order_by_timestamp_desc :: "scene list \<Rightarrow> scene list" where
  "order_by_timestamp_desc rows = rev (sort_key (\<lambda>r. sort_rank (timestamp r)) (rev rows))"

definition sql_limit :: "int \<Rightarrow> 'a list \<Rightarrow> 'a list" where
  "sql_limit n rows = (if n < 0 then rows else take (nat n) rows)"

definition get_all_scenes :: "int \<Rightarrow> conn \<Rightarrow> pyval result" where
  "get_all_scenes limit c =
     fetchall_dicts
       (map scene_tuple (sql_limit limit (order_by_timestamp_desc (scenes (working c)))))
       scenes_columns"

definition get_scene_detections :: "int \<Rightarrow> conn \<Rightarrow> pyval result" where
  "get_scene_detections sid c =
     fetchall_dicts
       (map detection_tuple
          (filter (\<lambda>x. references_scene (det_scene_id x) sid) (detections (working c))))
       detections_columns"

text \<open>
  The two bounds of \<^verbatim>\<open>get_scenes_by_time_range\<close> are the strings \<^verbatim>\<open>isoformat()\<close>
  gives for \<^verbatim>\<open>start\<close> and \<^verbatim>\<open>end\<close>. These three queries return what
  \<^verbatim>\<open>fetchall()\<close> gives.
\<close>

definition get_scenes_by_time_range :: "string \<Rightarrow> string \<Rightarrow> conn \<Rightarrow> pyval" where
  "get_scenes_by_time_range start_iso end_iso c =
     PList (map (\<lambda>r. PTuple (scene_tuple r))
       (filter (\<lambda>r. sql_le (SText start_iso) (timestamp r) \<and> sql_le (timestamp r) (SText end_iso))
          (scenes (working c))))"

definition get_detections_by_class :: "string \<Rightarrow> real \<Rightarrow> conn \<Rightarrow> pyval" where
  "get_detections_by_class class_label confidence_threshold c =
     PList (map (\<lambda>r. PTuple (detection_tuple r))
       (filter (\<lambda>r. sql_eq (det_class_label r) (SText class_label) \<and>
                    sql_le (SReal confidence_threshold) (det_confidence r))
          (detections (working c))))"

text \<open>
  The join of \<^verbatim>\<open>get_training_data\<close>: each dataset row of type \<open>train\<close>, with the
  scene it references, and with each description of that scene, or \<open>NULL\<close> once when
  the scene has none. SQL leaves the order of the rows open; they are listed here as
  SQLite produces them when it scans \<open>datasets\<close> and looks the scene up by its key.
\<close>

definition train_assignments :: "db \<Rightarrow> dataset list" where
  "train_assignments d =
     filter (\<lambda>x. sql_eq (dataset_type x) (SText ''train'')) (datasets d)"

definition assigned_scenes :: "db \<Rightarrow> dataset \<Rightarrow> scene list" where
  "assigned_scenes d x =
     filter (\<lambda>s. references_scene (ds_scene_id x) (scene_id s)) (scenes d)"

definition descriptions_of :: "db \<Rightarrow> scene \<Rightarrow> scene_description list" where
  "descriptions_of d s =
     filter (\<lambda>x. references_scene (desc_scene_id x) (scene_id s)) (scene_descriptions d)"

definition joined_descriptions :: "db \<Rightarrow> scene \<Rightarrow> sqlval list" where
  "joined_descriptions d s =
     (case descriptions_of d s of
        [] \<Rightarrow> [SNull]
      | x # xs \<Rightarrow> map description (x # xs))"

definition scene_rows :: "db \<Rightarrow> scene \<Rightarrow> pyval list" where
  "scene_rows d s =
     map (\<lambda>v. PTuple (scene_tuple s @ [to_py v])) (joined_descriptions d s)"

definition get_training_data :: "conn \<Rightarrow> pyval" where
  "get_training_data c =
     PList (concat (map (\<lambda>x. concat (map (scene_rows (working c))
                                      (assigned_scenes (working c) x)))
       (train_assignments (working c))))"

section \<open>Vocabulary of the properties\<close>

text \<open>A value the \<^verbatim>\<open>sqlite3\<close> module can bind, and what it is stored as.\<close>

definition bindable :: "pyval \<Rightarrow> bool" where
  "bindable v = (case v of PNone \<Rightarrow> True | PInt i \<Rightarrow> True | PFloat r \<Rightarrow> True
                   | PStr s \<Rightarrow> True | _ \<Rightarrow> False)"

text \<open>Example inputs, used where a property is run on concrete data.\<close>

definition example_metadata :: "string \<Rightarrow> pyval" where
  "example_metadata path = PDict [(''timestamp'', PStr ''2024-05-01T10:00:00''),
     (''camera_id'', PStr ''cam-1''), (''media_path'', PStr path)]"

definition example_detection :: pyval where
  "example_detection = PDict [(''class'', PStr ''car''), (''confidence'', PFloat 0.9),
     (''bbox'', PList [PInt 1, PInt 2, PInt 3, PInt 4])]"

text \<open>
  Two records for \<^verbatim>\<open>incremental_update\<close>: a complete one, and one whose detection
  has no \<open>confidence\<close>; and the batch of both.
\<close>

definition complete_record :: pydict where
  "complete_record =
     [(''metadata'', example_metadata ''a.jpg''), (''detections'', PList [example_detection])]"

definition malformed_record :: pydict where
  "malformed_record =
     [(''metadata'', example_metadata ''b.jpg''),
      (''detections'', PList [PDict [(''class'', PStr ''car''),
         (''bbox'', PList [PInt 1, PInt 2, PInt 3, PInt 4])]])]"

definition example_batch :: "pydict list" where
  "example_batch = [complete_record, malformed_record]"

text \<open>A record that has a description but no \<open>model_version\<close>, second in its batch.\<close>

definition incomplete_record :: pydict where
  "incomplete_record =
     [(''metadata'', example_metadata ''b.jpg''), (''description'', PStr ''a road''),
      (''confidence'', PFloat 0.5)]"

definition bare_record :: pydict where
  "bare_record = [(''metadata'', example_metadata ''a.jpg'')]"

definition example_incomplete :: "pydict list" where
  "example_incomplete = [bare_record, incomplete_record]"

text \<open>
  Scene metadata as \<^verbatim>\<open>create_scene\<close> expects it: the three required keys are present
  and the six values it reads can be stored.
\<close>

definition valid_metadata :: "pydict \<Rightarrow> bool" where
  "valid_metadata m =
     (has_key m ''timestamp'' \<and> has_key m ''camera_id'' \<and> has_key m ''media_path'' \<and>
      list_all (\<lambda>k. bindable (dict_get m k))
        [''timestamp'', ''latitude'', ''longitude'', ''resolution'', ''camera_id'',
         ''media_path''])"

definition example_scene :: pydict where
  "example_scene = [(''timestamp'', PStr ''2024-05-01T10:00:00''), (''latitude'', PFloat 48.5),
     (''camera_id'', PStr ''cam-1''), (''media_path'', PStr ''a.jpg'')]"

text \<open>The shape of what a read returns: a dictionary keyed by the columns in order, a tuple.\<close>

definition is_mapping :: "string list \<Rightarrow> pyval \<Rightarrow> bool" where
  "is_mapping cols v = (case v of PDict d \<Rightarrow> map fst d = cols | _ \<Rightarrow> False)"

definition is_tuple :: "pyval \<Rightarrow> bool" where
  "is_tuple v = (case v of PTuple vs \<Rightarrow> True | _ \<Rightarrow> False)"

definition one_mapping :: "string list \<Rightarrow> pyval result \<Rightarrow> bool" where
  "one_mapping cols res =
     (case res of Inl e \<Rightarrow> False | Inr v \<Rightarrow> v = PNone \<or> is_mapping cols v)"

definition all_mappings :: "string list \<Rightarrow> pyval result \<Rightarrow> bool" where
  "all_mappings cols res =
     (case res of Inr (PList rows) \<Rightarrow> list_all (is_mapping cols) rows | _ \<Rightarrow> False)"

definition all_tuples :: "pyval \<Rightarrow> bool" where
  "all_tuples v = (case v of PList rows \<Rightarrow> list_all is_tuple rows | _ \<Rightarrow> False)"

text \<open>A store with one scene that is assigned to the training set.\<close>

definition example_store :: conn where
  "example_store = snd (assign_to_dataset [1] ''train'' (snd (create_scene example_scene new_database)))"


text \<open>
  A store with three scenes of increasing timestamps; the first is assigned to the
  training set and has two descriptions, the second is assigned to it and has none, the
  third is assigned to the validation set only.
\<close>

definition scene_at :: "string \<Rightarrow> string \<Rightarrow> pydict" where
  "scene_at ts path = [(''timestamp'', PStr ts), (''camera_id'', PStr ''cam-1''),
     (''media_path'', PStr path)]"

definition example_library :: conn where
  "example_library =
     snd (assign_to_dataset [3] ''val''
      (snd (assign_to_dataset [1, 2] ''train''
       (snd (add_scene_description 1 (PStr ''a street'') (PFloat 0.7) (PStr ''v2'')
         (snd (add_scene_description 1 (PStr ''a road'') (PFloat 0.8) (PStr ''v1'')
           (snd (create_scene (scene_at ''2024-05-03T10:00:00'' ''c.jpg'')
             (snd (create_scene (scene_at ''2024-05-02T10:00:00'' ''b.jpg'')
               (snd (create_scene (scene_at ''2024-05-01T10:00:00'' ''a.jpg'')
                 new_database)))))))))))))"


text \<open>
  The columns of a scene that carry data (all but the primary key), the value of a
  column by name, and an update mapping for \<^verbatim>\<open>update_scene\<close>: not empty, its keys
  distinct data columns, its values storable.
\<close>

definition data_columns :: "string list" where
  "data_columns = [''timestamp'', ''latitude'', ''longitude'', ''resolution'', ''camera_id'',
     ''media_path'']"

definition scene_column :: "string \<Rightarrow> scene \<Rightarrow> sqlval" where
  "scene_column k r =
     (if k = ''scene_id'' then SInt (scene_id r)
      else if k = ''timestamp'' then timestamp r
      else if k = ''latitude'' then latitude r
      else if k = ''longitude'' then longitude r
      else if k = ''resolution'' then resolution r
      else if k = ''camera_id'' then camera_id r
      else if k = ''media_path'' then media_path r
      else SNull)"

definition valid_updates :: "pydict \<Rightarrow> bool" where
  "valid_updates u =
     (u \<noteq> [] \<and> distinct (map fst u) \<and> list_all (\<lambda>kv. fst kv \<in> set data_columns) u \<and>
      list_all (\<lambda>kv. bindable (snd kv)) u)"

text \<open>
  Referential integrity of a database: every row of a dependent table has \<open>NULL\<close> or
  the key of a stored scene in its \<open>scene_id\<close>.
\<close>

definition fk_ok :: "db \<Rightarrow> bool" where
  "fk_ok d =
     (list_all (\<lambda>x. parent_exists (det_scene_id x) d) (detections d) \<and>
      list_all (\<lambda>x. parent_exists (ann_scene_id x) d) (annotations d) \<and>
      list_all (\<lambda>x. parent_exists (desc_scene_id x) d) (scene_descriptions d) \<and>
      list_all (\<lambda>x. parent_exists (ds_scene_id x) d) (datasets d))"

text \<open>No scene, and no row of a dependent table, carries the scene id \<open>s\<close>.\<close>

definition scene_absent :: "int \<Rightarrow> db \<Rightarrow> bool" where
  "scene_absent s d = (\<not> list_ex (\<lambda>r. scene_id r = s) (scenes d))"

definition unreferenced :: "int \<Rightarrow> db \<Rightarrow> bool" where
  "unreferenced s d =
     (\<not> list_ex (\<lambda>x. references_scene (det_scene_id x) s) (detections d) \<and>
      \<not> list_ex (\<lambda>x. references_scene (ann_scene_id x) s) (annotations d) \<and>
      \<not> list_ex (\<lambda>x. references_scene (desc_scene_id x) s) (scene_descriptions d) \<and>
      \<not> list_ex (\<lambda>x. references_scene (ds_scene_id x) s) (datasets d))"

text \<open>
  The only statement the handler leaves uncommitted is the insert of \<^verbatim>\<open>add_scene\<close>:
  between two calls the dependent tables are the same in the connection's view and in
  the committed database.
\<close>

definition children_committed :: "conn \<Rightarrow> bool" where
  "children_committed c =
     (detections (working c) = detections (committed c) \<and>
      annotations (working c) = annotations (committed c) \<and>
      scene_descriptions (working c) = scene_descriptions (committed c) \<and>
      datasets (working c) = datasets (committed c))"

text \<open>
  Well-formed inputs of the inserts: a detection record with \<open>class\<close>, \<open>confidence\<close>
  and a \<open>bbox\<close> list of at least four values, an annotation with \<open>label_type\<close>, all
  values storable.
\<close>

definition valid_detection :: "pyval \<Rightarrow> bool" where
  "valid_detection v =
     (case v of
        PDict d \<Rightarrow>
          has_key d ''class'' \<and> bindable (dict_get d ''class'') \<and>
          has_key d ''confidence'' \<and> bindable (dict_get d ''confidence'') \<and>
          (case dict_get d ''bbox'' of
             PList b \<Rightarrow> 4 \<le> length b \<and> list_all bindable (take 4 b)
           | _ \<Rightarrow> False)
      | _ \<Rightarrow> False)"

definition valid_annotation :: "pydict \<Rightarrow> bool" where
  "valid_annotation a =
     (has_key a ''label_type'' \<and>
      list_all (\<lambda>k. bindable (dict_get a k))
        [''label_type'', ''description'', ''class_label'', ''x_min'', ''y_min'', ''x_max'',
         ''y_max'', ''annotated_by''])"

text \<open>
  The invariant of the store: in the connection's view and in the committed database
  the foreign keys hold and scene ids are distinct, and nothing is uncommitted on the
  dependent tables.
\<close>

definition db_ok :: "db \<Rightarrow> bool" where
  "db_ok d = (fk_ok d \<and> distinct (map scene_id (scenes d)))"

definition sound :: "conn \<Rightarrow> bool" where
  "sound c = (db_ok (working c) \<and> db_ok (committed c))"

definition consistent :: "conn \<Rightarrow> bool" where
  "consistent c = (sound c \<and> children_committed c)"


definition scene_dict :: "scene \<Rightarrow> pyval" where
  "scene_dict s = PDict [(''scene_id'', PInt (scene_id s)), (''timestamp'', to_py (timestamp s)),
     (''latitude'', to_py (latitude s)), (''longitude'', to_py (longitude s)),
     (''resolution'', to_py (resolution s)), (''camera_id'', to_py (camera_id s)),
     (''media_path'', to_py (media_path s))]"

text \<open>
  The handler passes scene ids as integers, so the rows that \<^verbatim>\<open>add_scene_description\<close>
  and \<^verbatim>\<open>assign_to_dataset\<close> insert hold an integer in \<open>scene_id\<close>.
\<close>

definition is_integer :: "sqlval \<Rightarrow> bool" where
  "is_integer v = (case v of SInt i \<Rightarrow> True | _ \<Rightarrow> False)"

definition integer_keys :: "db \<Rightarrow> bool" where
  "integer_keys d =
     (list_all (\<lambda>y. is_integer (desc_scene_id y)) (scene_descriptions d) \<and>
      list_all (\<lambda>x. is_integer (ds_scene_id x)) (datasets d))"

definition keyed :: "conn \<Rightarrow> bool" where
  "keyed c = (integer_keys (working c) \<and> integer_keys (committed c))"

text \<open>
  Timestamps as the spec has them, ISO-8601 strings: every scene holds a text in
  \<open>timestamp\<close>, and scenes are compared by these strings.
\<close>

definition timestamp_text :: "scene \<Rightarrow> string" where
  "timestamp_text s = (case timestamp s of SText t \<Rightarrow> t | _ \<Rightarrow> [])"

definition text_timestamps :: "db \<Rightarrow> bool" where
  "text_timestamps d =
     list_all (\<lambda>s. case timestamp s of SText t \<Rightarrow> True | _ \<Rightarrow> False) (scenes d)"

text \<open>
  A connection on which \<^verbatim>\<open>create_scene\<close> has just inserted a scene: the insert is
  not committed yet.
\<close>

definition pending_store :: conn where
  "pending_store = snd (create_scene example_scene new_database)"

text \<open>The number of rows in the list a read returns.\<close>

definition rows_returned :: "pyval result \<Rightarrow> int" where
  "rows_returned res = (case res of Inr (PList rows) \<Rightarrow> int (length rows) | _ \<Rightarrow> 0)"

section \<open>The batch of incremental\_update\<close>

text \<open>
  Claim C1 says that a failing batch leaves no row behind. It does not hold:
  \<^verbatim>\<open>add_detections\<close> runs inside the block of \<^verbatim>\<open>incremental_update\<close> and
  closes its own block, which commits everything inserted so far. On the example batch
  the second record raises \<open>KeyError\<close>, and afterwards the scene and the detection of
  the first record are in the committed database.
\<close>

theorem incremental_update_keeps_earlier_records:
  "fst (incremental_update example_batch new_database) = Inl (KeyError (PStr ''confidence'')) \<and>
   map media_path (scenes (committed (snd (incremental_update example_batch new_database))))
     = [SText ''a.jpg''] \<and>
   map media_path (scenes (working (snd (incremental_update example_batch new_database))))
     = [SText ''a.jpg''] \<and>
   map det_scene_id (detections (committed (snd (incremental_update example_batch new_database))))
     = [SInt 1]"
  by code_simp

text \<open>
  When the failing record is the first and fails before \<^verbatim>\<open>add_detections\<close> reaches
  its own block, as in the example of the spec, nothing has been committed yet and the
  rollback undoes the scene insert.
\<close>

lemma incremental_update_first_record_undone:
  "fst (incremental_update [malformed_record] new_database)
     = Inl (KeyError (PStr ''confidence'')) \<and>
   snd (incremental_update [malformed_record] new_database) = new_database"
  by code_simp

lemma update_one_missing_key:
  "has_key scn ''description'' \<Longrightarrow>
   \<not> has_key scn ''confidence'' \<or> \<not> has_key scn ''model_version'' \<Longrightarrow>
   isl (fst (update_one scn c))"
  by (auto simp: update_one_def get_item_def has_key_def
      split: sum.splits prod.splits option.splits pyval.splits if_splits)

lemma update_all_raises:
  "scn \<in> set xs \<Longrightarrow> \<forall>c. isl (fst (update_one scn c)) \<Longrightarrow> isl (fst (update_all xs c))"
proof (induction xs arbitrary: c)
  case Nil
  then show ?case by simp
next
  case (Cons x xs)
  obtain r c1 where step: "update_one x c = (r, c1)" by (cases "update_one x c")
  show ?case
  proof (cases r)
    case (Inl e)
    with step show ?thesis by simp
  next
    case (Inr u)
    with step Cons.prems(2) have "x \<noteq> scn" by (metis fst_conv sum.disc(2))
    with Cons step Inr show ?thesis by auto
  qed
qed

lemma with_conn_isl: "isl (fst (with_conn body c)) = isl (fst (body c))"
  by (simp add: with_conn_def split: prod.splits sum.splits)

text \<open>
  Claim C10: when a record of the batch has the key \<open>description\<close> but lacks
  \<open>confidence\<close> or \<open>model_version\<close>, the loop body raises on that record in whatever
  state it is reached, and \<^verbatim>\<open>incremental_update\<close> as a whole raises.
\<close>

theorem incremental_update_incomplete_description:
  assumes "scn \<in> set new_scenes" and "has_key scn ''description''"
    and "\<not> has_key scn ''confidence'' \<or> \<not> has_key scn ''model_version''"
  shows "isl (fst (update_one scn c')) \<and> isl (fst (incremental_update new_scenes c))"
  using assms
  by (simp add: incremental_update_def with_conn_isl update_all_raises update_one_missing_key)

text \<open>
  On the example the first record is inserted and the second raises for its missing
  \<open>model_version\<close>.
\<close>

lemma incremental_update_incomplete_example:
  "fst (incremental_update example_incomplete new_database)
     = Inl (KeyError (PStr ''model_version''))"
  by code_simp

theorem incremental_update_incomplete_description_witness:
  "isl (fst (update_one incomplete_record new_database)) \<and>
   isl (fst (incremental_update example_incomplete new_database))"
  using incremental_update_incomplete_description
    [of incomplete_record example_incomplete new_database new_database]
  by (simp add: example_incomplete_def incomplete_record_def has_key_def)

section \<open>Updates with an empty mapping\<close>

text \<open>
  With an empty update mapping the generated text is no statement, so
  \<^verbatim>\<open>update_scene\<close>, \<^verbatim>\<open>update_detection\<close> and \<^verbatim>\<open>update_annotation\<close> raise
  \<open>OperationalError\<close>. The committed database is unchanged, and when no transaction was
  open the connection is exactly as before.
\<close>

lemma empty_update_error:
  "fst (update_scene i [] c) = Inl OperationalError \<and>
   fst (update_detection i [] c) = Inl OperationalError \<and>
   fst (update_annotation i [] c) = Inl OperationalError \<and>
   committed (snd (update_scene i [] c)) = committed c \<and>
   committed (snd (update_detection i [] c)) = committed c \<and>
   committed (snd (update_annotation i [] c)) = committed c \<and>
   (working c = committed c \<longrightarrow>
      snd (update_scene i [] c) = c \<and> snd (update_detection i [] c) = c \<and>
      snd (update_annotation i [] c) = c)"
  by (simp add: update_scene_def update_detection_def update_annotation_def with_conn_def
      execute_prepared_def prepare_update_def rollback_def)

text \<open>
  Claim C9 says that such a call raises and leaves the stored state unchanged. It raises,
  but the state can change: \<^verbatim>\<open>add_scene\<close> runs its insert outside any
  \<^verbatim>\<open>with self.conn:\<close> block, unlike every other write, so after \<^verbatim>\<open>create_scene\<close>
  the new scene is uncommitted, and the block of the failing update rolls it back. On
  the pending store \<^verbatim>\<open>get_scene\<close> returns scene 1 before the call and \<open>None\<close> after
  it, for each of the three updates.
\<close>

theorem empty_update_discards_pending_scene:
  "get_scene 1 pending_store =
     Inr (PDict [(''scene_id'', PInt 1), (''timestamp'', PStr ''2024-05-01T10:00:00''),
       (''latitude'', PFloat 48.5), (''longitude'', PNone), (''resolution'', PNone),
       (''camera_id'', PStr ''cam-1''), (''media_path'', PStr ''a.jpg'')]) \<and>
   fst (update_scene 1 [] pending_store) = Inl OperationalError \<and>
   get_scene 1 (snd (update_scene 1 [] pending_store)) = Inr PNone \<and>
   fst (update_detection 1 [] pending_store) = Inl OperationalError \<and>
   get_scene 1 (snd (update_detection 1 [] pending_store)) = Inr PNone \<and>
   fst (update_annotation 1 [] pending_store) = Inl OperationalError \<and>
   get_scene 1 (snd (update_annotation 1 [] pending_store)) = Inr PNone"
  by code_simp

section \<open>Basic facts\<close>

lemma to_py_simps:
  "to_py SNull = PNone" "to_py (SInt i) = PInt i" "to_py (SReal x) = PFloat x"
  "to_py (SText t) = PStr t"
  by (simp_all add: to_py_def)

lemma bind_param_bindable: "bindable v \<Longrightarrow> \<exists>w. bind_param v = Inr w \<and> to_py w = v"
  by (cases v) (simp_all add: bindable_def bind_param_def to_py_def)

lemma get_item_present: "has_key m k \<Longrightarrow> get_item m k = Inr (dict_get m k)"
  by (auto simp: has_key_def get_item_def dict_get_def)

lemma fold_max_ge: "(a::int) \<le> fold max xs a"
  by (induction xs arbitrary: a) (auto intro: order_trans [OF max.cobounded2])

lemma fold_max_mem: "(x::int) \<in> set xs \<Longrightarrow> x \<le> fold max xs a"
proof (induction xs arbitrary: a)
  case Nil
  then show ?case by simp
next
  case (Cons y ys)
  show ?case
  proof (cases "x = y")
    case True
    have "y \<le> max y a" by simp
    also have "\<dots> \<le> fold max ys (max y a)" by (rule fold_max_ge)
    finally show ?thesis using True by simp
  next
    case False
    with Cons show ?thesis by simp
  qed
qed

lemma next_rowid_fresh: "x \<in> set ids \<Longrightarrow> x < next_rowid seq ids"
  using fold_max_mem [of x ids seq] by (simp add: next_rowid_def)

lemma next_rowid_above_seq: "seq < next_rowid seq ids"
  using fold_max_ge [of seq ids] by (simp add: next_rowid_def)

subsection \<open>Rows as dictionaries\<close>

lemma nth_notin_take: "distinct xs \<Longrightarrow> n < length xs \<Longrightarrow> xs ! n \<notin> set (take n xs)"
  by (auto simp: in_set_conv_nth nth_eq_iff_index_eq)

lemma row_to_dict_prefix:
  assumes "distinct descr" and "n \<le> length row" and "length row \<le> length descr"
  shows "fold (\<lambda>iv d. dict_set d (descr ! fst iv) (snd iv)) (enumerate 0 (take n row)) []
         = zip (take n descr) (take n row)"
  using assms(2)
proof (induction n)
  case 0
  then show ?case by simp
next
  case (Suc n)
  then have n: "n < length row" "n < length descr" using assms(3) by simp_all
  have "descr ! n \<notin> set (take n descr)"
    using assms(1) n(2) by (rule nth_notin_take)
  then have nokey: "\<not> has_key (zip (take n descr) (take n row)) (descr ! n)"
    using n by (simp add: has_key_def map_of_zip_is_None)
  have "take (Suc n) row = take n row @ [row ! n]"
    using n by (simp add: take_Suc_conv_app_nth)
  moreover have "take (Suc n) descr = take n descr @ [descr ! n]"
    using n by (simp add: take_Suc_conv_app_nth)
  ultimately show ?case
    using Suc n nokey by (simp add: enumerate_append_eq dict_set_def min_def)
qed

lemma row_to_dict_zip:
  "distinct descr \<Longrightarrow> length row = length descr \<Longrightarrow> row_to_dict row descr = Inr (zip descr row)"
  using row_to_dict_prefix [of descr "length row" row] by (simp add: row_to_dict_def)

lemma rows_to_dicts_zip:
  "distinct descr \<Longrightarrow> \<forall>row \<in> set rows. length row = length descr \<Longrightarrow>
   rows_to_dicts rows descr = Inr (map (\<lambda>row. PDict (zip descr row)) rows)"
  by (induction rows) (simp_all add: row_to_dict_zip)

lemma fetchone_dict_zip:
  "distinct descr \<Longrightarrow> \<forall>row \<in> set rows. length row = length descr \<Longrightarrow>
   fetchone_dict rows descr =
     (case rows of [] \<Rightarrow> Inr PNone | row # rest \<Rightarrow> Inr (PDict (zip descr row)))"
  by (cases rows) (simp_all add: fetchone_dict_def row_to_dict_zip)

lemma fetchall_dicts_zip:
  "distinct descr \<Longrightarrow> \<forall>row \<in> set rows. length row = length descr \<Longrightarrow>
   fetchall_dicts rows descr = Inr (PList (map (\<lambda>row. PDict (zip descr row)) rows))"
  by (simp add: fetchall_dicts_def rows_to_dicts_zip)

lemma columns_distinct:
  "distinct scenes_columns" "distinct detections_columns" "distinct annotations_columns"
  by (simp_all add: scenes_columns_def detections_columns_def annotations_columns_def)

lemma columns_length:
  "length scenes_columns = 7" "length detections_columns = 8" "length annotations_columns = 10"
  by (simp_all add: scenes_columns_def detections_columns_def annotations_columns_def)

lemma tuple_lengths:
  "length (scene_tuple s) = 7" "length (detection_tuple x) = 8"
  "length (annotation_tuple a) = 10"
  by (simp_all add: scene_tuple_def detection_tuple_def annotation_tuple_def)

lemma get_scene_eq:
  "get_scene i c =
     (case filter (\<lambda>r. scene_id r = i) (scenes (working c)) of
        [] \<Rightarrow> Inr PNone
      | r # rest \<Rightarrow> Inr (PDict (zip scenes_columns (scene_tuple r))))"
  unfolding get_scene_def
  by (subst fetchone_dict_zip)
    (auto simp: columns_distinct columns_length tuple_lengths split: list.splits)

lemma get_detection_eq:
  "get_detection i c =
     (case filter (\<lambda>r. detection_id r = i) (detections (working c)) of
        [] \<Rightarrow> Inr PNone
      | r # rest \<Rightarrow> Inr (PDict (zip detections_columns (detection_tuple r))))"
  unfolding get_detection_def
  by (subst fetchone_dict_zip)
    (auto simp: columns_distinct columns_length tuple_lengths split: list.splits)

lemma get_annotation_eq:
  "get_annotation i c =
     (case filter (\<lambda>r. annotation_id r = i) (annotations (working c)) of
        [] \<Rightarrow> Inr PNone
      | r # rest \<Rightarrow> Inr (PDict (zip annotations_columns (annotation_tuple r))))"
  unfolding get_annotation_def
  by (subst fetchone_dict_zip)
    (auto simp: columns_distinct columns_length tuple_lengths split: list.splits)

lemma get_all_scenes_eq:
  "get_all_scenes n c =
     Inr (PList (map (\<lambda>r. PDict (zip scenes_columns (scene_tuple r)))
       (sql_limit n (order_by_timestamp_desc (scenes (working c))))))"
  unfolding get_all_scenes_def
  by (subst fetchall_dicts_zip)
    (auto simp: columns_distinct columns_length tuple_lengths comp_def)

lemma get_scene_detections_eq:
  "get_scene_detections s c =
     Inr (PList (map (\<lambda>r. PDict (zip detections_columns (detection_tuple r)))
       (filter (\<lambda>x. references_scene (det_scene_id x) s) (detections (working c)))))"
  unfolding get_scene_detections_def
  by (subst fetchall_dicts_zip)
    (auto simp: columns_distinct columns_length tuple_lengths comp_def)

section \<open>Creating and reading a scene\<close>

text \<open>
  Claim C5: for valid metadata \<open>m\<close>, \<^verbatim>\<open>create_scene\<close> returns an id, and
  \<^verbatim>\<open>get_scene\<close> on that id returns the dictionary whose fields are the values of
  \<open>m\<close>, with \<open>None\<close> for an optional field that \<open>m\<close> does not have
  (\<open>dict_get\<close> is \<^verbatim>\<open>m.get\<close>).
\<close>

theorem create_scene_get_scene:
  assumes "valid_metadata m"
  shows "\<exists>i c'. create_scene m c = (Inr i, c') \<and>
           get_scene i c' = Inr (PDict
             [(''scene_id'', PInt i),
              (''timestamp'', dict_get m ''timestamp''),
              (''latitude'', dict_get m ''latitude''),
              (''longitude'', dict_get m ''longitude''),
              (''resolution'', dict_get m ''resolution''),
              (''camera_id'', dict_get m ''camera_id''),
              (''media_path'', dict_get m ''media_path'')])"
proof -
  from assms obtain ts lat lon res cam mp where
    b: "bind_param (dict_get m ''timestamp'') = Inr ts" "to_py ts = dict_get m ''timestamp''"
       "bind_param (dict_get m ''latitude'') = Inr lat" "to_py lat = dict_get m ''latitude''"
       "bind_param (dict_get m ''longitude'') = Inr lon" "to_py lon = dict_get m ''longitude''"
       "bind_param (dict_get m ''resolution'') = Inr res" "to_py res = dict_get m ''resolution''"
       "bind_param (dict_get m ''camera_id'') = Inr cam" "to_py cam = dict_get m ''camera_id''"
       "bind_param (dict_get m ''media_path'') = Inr mp" "to_py mp = dict_get m ''media_path''"
    unfolding valid_metadata_def by (auto dest!: bind_param_bindable)
  from assms have keys: "get_item m ''timestamp'' = Inr (dict_get m ''timestamp'')"
    "get_item m ''camera_id'' = Inr (dict_get m ''camera_id'')"
    "get_item m ''media_path'' = Inr (dict_get m ''media_path'')"
    by (simp_all add: valid_metadata_def get_item_present)
  define i where "i = next_rowid (scenes_seq (working c)) (map scene_id (scenes (working c)))"
  define new where "new = \<lparr>scene_id = i, timestamp = ts, latitude = lat, longitude = lon,
    resolution = res, camera_id = cam, media_path = mp\<rparr>"
  define c' where "c' = c\<lparr>working := (working c)\<lparr>scenes := scenes (working c) @ [new],
    scenes_seq := i\<rparr>\<rparr>"
  have created: "create_scene m c = (Inr i, c')"
    by (simp add: create_scene_def add_scene_def keys execute_def b sql_insert_scene_def
        Let_def i_def new_def c'_def)
  have "\<forall>r \<in> set (scenes (working c)). scene_id r \<noteq> i"
  proof
    fix r assume "r \<in> set (scenes (working c))"
    then have "scene_id r < i"
      unfolding i_def by (intro next_rowid_fresh) simp
    then show "scene_id r \<noteq> i" by simp
  qed
  then have "filter (\<lambda>r. scene_id r = i) (scenes (working c')) = [new]"
    by (simp add: c'_def new_def filter_empty_conv)
  then have "get_scene i c' = Inr (PDict (zip scenes_columns (scene_tuple new)))"
    by (simp add: get_scene_eq)
  then show ?thesis
    using created by (simp add: scenes_columns_def scene_tuple_def new_def b to_py_simps)
qed

theorem create_scene_get_scene_witness:
  "valid_metadata example_scene \<and>
   (\<exists>i c'. create_scene example_scene new_database = (Inr i, c') \<and>
      get_scene i c' = Inr (PDict
        [(''scene_id'', PInt i), (''timestamp'', PStr ''2024-05-01T10:00:00''),
         (''latitude'', PFloat 48.5), (''longitude'', PNone), (''resolution'', PNone),
         (''camera_id'', PStr ''cam-1''), (''media_path'', PStr ''a.jpg'')]))"
  using create_scene_get_scene [of example_scene new_database]
  by (simp add: valid_metadata_def example_scene_def has_key_def dict_get_def bindable_def)

section \<open>The shape of the rows a read returns\<close>

text \<open>
  Claim C3 says that every read returns its rows as mappings. The three queries that
  return \<^verbatim>\<open>fetchall()\<close> directly do not: on the example store
  \<^verbatim>\<open>get_training_data\<close> and \<^verbatim>\<open>get_scenes_by_time_range\<close> return a list with one
  positional tuple.
\<close>

theorem reads_returning_tuples:
  "get_training_data example_store =
     PList [PTuple [PInt 1, PStr ''2024-05-01T10:00:00'', PFloat 48.5, PNone, PNone,
       PStr ''cam-1'', PStr ''a.jpg'', PNone]] \<and>
   get_scenes_by_time_range ''2024-01-01T00:00:00'' ''2024-12-31T00:00:00'' example_store =
     PList [PTuple [PInt 1, PStr ''2024-05-01T10:00:00'', PFloat 48.5, PNone, PNone,
       PStr ''cam-1'', PStr ''a.jpg'']] \<and>
   \<not> all_mappings scenes_columns (Inr (get_scenes_by_time_range ''2024-01-01T00:00:00''
         ''2024-12-31T00:00:00'' example_store))"
  by code_simp

lemma is_mapping_zip: "length vs = length cols \<Longrightarrow> is_mapping cols (PDict (zip cols vs))"
  by (simp add: is_mapping_def)

text \<open>
  What holds instead: the five reads that go through \<^verbatim>\<open>_row_to_dict\<close> return
  \<open>None\<close> or mappings whose keys are the columns in declaration order, and
  \<^verbatim>\<open>get_scenes_by_time_range\<close>, \<^verbatim>\<open>get_detections_by_class\<close> and
  \<^verbatim>\<open>get_training_data\<close> return tuples.
\<close>

lemma read_row_shapes:
  "one_mapping scenes_columns (get_scene i c) \<and>
   one_mapping detections_columns (get_detection i c) \<and>
   one_mapping annotations_columns (get_annotation i c) \<and>
   all_mappings scenes_columns (get_all_scenes n c) \<and>
   all_mappings detections_columns (get_scene_detections i c) \<and>
   all_tuples (get_scenes_by_time_range a b c) \<and>
   all_tuples (get_detections_by_class l t c) \<and>
   all_tuples (get_training_data c)"
proof -
  have "one_mapping scenes_columns (get_scene i c)"
    by (simp add: get_scene_eq one_mapping_def is_mapping_zip tuple_lengths columns_length
        split: list.splits)
  moreover have "one_mapping detections_columns (get_detection i c)"
    by (simp add: get_detection_eq one_mapping_def is_mapping_zip tuple_lengths columns_length
        split: list.splits)
  moreover have "one_mapping annotations_columns (get_annotation i c)"
    by (simp add: get_annotation_eq one_mapping_def is_mapping_zip tuple_lengths columns_length
        split: list.splits)
  moreover have "all_mappings scenes_columns (get_all_scenes n c)"
    by (simp add: get_all_scenes_eq all_mappings_def list_all_iff is_mapping_zip tuple_lengths
        columns_length)
  moreover have "all_mappings detections_columns (get_scene_detections i c)"
    by (simp add: get_scene_detections_eq all_mappings_def list_all_iff is_mapping_zip
        tuple_lengths columns_length)
  moreover have "all_tuples (get_scenes_by_time_range a b c)"
    by (simp add: get_scenes_by_time_range_def all_tuples_def list_all_iff is_tuple_def)
  moreover have "all_tuples (get_detections_by_class l t c)"
    by (simp add: get_detections_by_class_def all_tuples_def list_all_iff is_tuple_def)
  moreover have "all_tuples (get_training_data c)"
    by (auto simp: get_training_data_def scene_rows_def all_tuples_def list_all_iff
        is_tuple_def)
  ultimately show ?thesis by simp
qed

section \<open>The most recent scenes\<close>

lemma rank_text: "sort_rank (SText a) \<le> sort_rank (SText b) \<longleftrightarrow> a \<le> b"
  by (simp add: sort_rank_def)

lemma ordered_mset: "mset (order_by_timestamp_desc rows) = mset rows"
  by (simp add: order_by_timestamp_desc_def)

lemma ordered_sorted:
  "sorted_wrt (\<lambda>a b. sort_rank (timestamp b) \<le> sort_rank (timestamp a))
     (order_by_timestamp_desc rows)"
proof -
  have "sorted (map (\<lambda>r. sort_rank (timestamp r))
      (sort_key (\<lambda>r. sort_rank (timestamp r)) (rev rows)))"
    by (rule sorted_sort_key)
  then have "sorted_wrt (\<lambda>a b. sort_rank (timestamp a) \<le> sort_rank (timestamp b))
     (sort_key (\<lambda>r. sort_rank (timestamp r)) (rev rows))"
    by (simp add: sorted_map)
  then show ?thesis
    by (simp add: order_by_timestamp_desc_def sorted_wrt_rev)
qed

lemma rank_timestamp_text:
  assumes "text_timestamps d" and "a \<in> set (scenes d)" and "b \<in> set (scenes d)"
  shows "sort_rank (timestamp b) \<le> sort_rank (timestamp a) \<longleftrightarrow>
         timestamp_text b \<le> timestamp_text a"
proof -
  from assms(1,2) obtain ta where "timestamp a = SText ta"
    by (cases "timestamp a") (auto simp: text_timestamps_def list_all_iff)
  moreover from assms(1,3) obtain tb where "timestamp b = SText tb"
    by (cases "timestamp b") (auto simp: text_timestamps_def list_all_iff)
  ultimately show ?thesis
    by (simp add: rank_text timestamp_text_def)
qed

lemma scene_dict_zip: "PDict (zip scenes_columns (scene_tuple r)) = scene_dict r"
  by (simp add: scenes_columns_def scene_tuple_def scene_dict_def to_py_simps)

text \<open>
  Claim C7, amended. Let the timestamps of the stored scenes be strings, as the spec has
  them. For every limit \<open>n\<close>, \<^verbatim>\<open>get_all_scenes\<close> returns the mappings of a list
  \<open>top\<close> of stored scenes that is in descending order of the timestamp strings, and no
  scene left out has a greater timestamp than a scene returned. For \<open>n \<ge> 0\<close> these are
  \<open>min n total\<close> scenes, as the claim says; for a negative \<open>n\<close> they are all scenes,
  because SQLite takes a negative \<^verbatim>\<open>LIMIT\<close> as no limit.
\<close>

theorem get_all_scenes_most_recent:
  assumes "text_timestamps (working c)"
  shows "\<exists>top rest.
           get_all_scenes n c = Inr (PList (map scene_dict top)) \<and>
           mset (top @ rest) = mset (scenes (working c)) \<and>
           length top = (if n < 0 then length (scenes (working c))
                         else min (nat n) (length (scenes (working c)))) \<and>
           sorted_wrt (\<lambda>a b. timestamp_text b \<le> timestamp_text a) top \<and>
           (\<forall>a \<in> set top. \<forall>b \<in> set rest. timestamp_text b \<le> timestamp_text a)"
proof -
  define ordered where "ordered = order_by_timestamp_desc (scenes (working c))"
  define top where "top = sql_limit n ordered"
  define rest where "rest = (if n < 0 then [] else drop (nat n) ordered)"
  have split: "top @ rest = ordered"
    by (simp add: top_def rest_def sql_limit_def)
  have same: "mset ordered = mset (scenes (working c))"
    unfolding ordered_def by (rule ordered_mset)
  then have members: "set ordered = set (scenes (working c))"
    by (rule mset_eq_setD)
  have len: "length ordered = length (scenes (working c))"
    using same by (rule mset_eq_length)
  have "sorted_wrt (\<lambda>a b. sort_rank (timestamp b) \<le> sort_rank (timestamp a)) ordered"
    unfolding ordered_def by (rule ordered_sorted)
  then have sorted: "sorted_wrt (\<lambda>a b. timestamp_text b \<le> timestamp_text a) (top @ rest)"
    unfolding split
    by (rule sorted_wrt_mono_rel [rotated])
      (simp add: members rank_timestamp_text [OF assms])
  have "get_all_scenes n c = Inr (PList (map scene_dict top))"
    by (simp add: get_all_scenes_eq top_def ordered_def scene_dict_zip)
  moreover have "mset (top @ rest) = mset (scenes (working c))"
    unfolding split by (rule same)
  moreover have "length top = (if n < 0 then length (scenes (working c))
      else min (nat n) (length (scenes (working c))))"
    using len by (simp add: top_def sql_limit_def min_def)
  moreover have "sorted_wrt (\<lambda>a b. timestamp_text b \<le> timestamp_text a) top"
    using sorted by (simp add: sorted_wrt_append)
  moreover have "\<forall>a \<in> set top. \<forall>b \<in> set rest. timestamp_text b \<le> timestamp_text a"
    using sorted by (simp add: sorted_wrt_append)
  ultimately show ?thesis by blast
qed

theorem get_all_scenes_most_recent_witness:
  "text_timestamps (working example_library) \<and>
   (\<exists>top rest.
      get_all_scenes 2 example_library = Inr (PList (map scene_dict top)) \<and>
      mset (top @ rest) = mset (scenes (working example_library)) \<and>
      length top = 2 \<and>
      sorted_wrt (\<lambda>a b. timestamp_text b \<le> timestamp_text a) top \<and>
      (\<forall>a \<in> set top. \<forall>b \<in> set rest. timestamp_text b \<le> timestamp_text a))"
proof -
  have texts: "text_timestamps (working example_library)"
    by code_simp
  have total: "length (scenes (working example_library)) = 3"
    by code_simp
  from get_all_scenes_most_recent [OF texts, of 2] texts total show ?thesis
    by simp
qed

text \<open>
  Claim C7 as stated, for every limit, fails at a negative one: on the example library,
  which holds three scenes, a limit of \<open>-1\<close> returns three rows and not
  \<open>min (-1) 3\<close>.
\<close>

theorem get_all_scenes_negative_limit_counterexample:
  "rows_returned (get_all_scenes (-1) example_library) = 3 \<and>
   int (length (scenes (working example_library))) = 3 \<and>
   rows_returned (get_all_scenes (-1) example_library)
     \<noteq> min (-1) (int (length (scenes (working example_library))))"
  by code_simp

text \<open>On the example library, a limit of two gives the scenes of May 3 and May 2.\<close>

lemma get_all_scenes_example:
  "get_all_scenes 2 example_library = Inr (PList
     [PDict [(''scene_id'', PInt 3), (''timestamp'', PStr ''2024-05-03T10:00:00''),
        (''latitude'', PNone), (''longitude'', PNone), (''resolution'', PNone),
        (''camera_id'', PStr ''cam-1''), (''media_path'', PStr ''c.jpg'')],
      PDict [(''scene_id'', PInt 2), (''timestamp'', PStr ''2024-05-02T10:00:00''),
        (''latitude'', PNone), (''longitude'', PNone), (''resolution'', PNone),
        (''camera_id'', PStr ''cam-1''), (''media_path'', PStr ''b.jpg'')]])"
  by code_simp

section \<open>Training data\<close>




















text \<open>
  On the example store the first scene, described twice, has two rows, the second, without
  description, one row with \<open>None\<close>, and the third, assigned to \<open>val\<close>, none.
\<close>

lemma get_training_data_example:
  "get_training_data example_library = PList
     [PTuple [PInt 1, PStr ''2024-05-01T10:00:00'', PNone, PNone, PNone, PStr ''cam-1'',
        PStr ''a.jpg'', PStr ''a road''],
      PTuple [PInt 1, PStr ''2024-05-01T10:00:00'', PNone, PNone, PNone, PStr ''cam-1'',
        PStr ''a.jpg'', PStr ''a street''],
      PTuple [PInt 2, PStr ''2024-05-02T10:00:00'', PNone, PNone, PNone, PStr ''cam-1'',
        PStr ''b.jpg'', PNone]]"
  by code_simp

section \<open>Partial update of a scene\<close>

lemma bind_params_bindable:
  "list_all bindable vs \<Longrightarrow> \<exists>ws. bind_params vs = Inr ws \<and> map to_py ws = vs"
proof (induction vs)
  case Nil
  then show ?case by simp
next
  case (Cons v vs)
  then obtain w ws where "bind_param v = Inr w" "to_py w = v" "bind_params vs = Inr ws"
    "map to_py ws = vs"
    using bind_param_bindable [of v] by auto
  then show ?case by simp
qed

lemma bind_params_append:
  "bind_params vs = Inr ws \<Longrightarrow> bind_params us = Inr xs \<Longrightarrow> bind_params (vs @ us) = Inr (ws @ xs)"
  by (induction vs arbitrary: ws) (auto split: sum.splits)

lemma set_data_column:
  assumes "k \<in> set data_columns"
  shows "\<exists>r'. set_scene_column k v r = Some r' \<and> scene_id r' = scene_id r \<and>
           (\<forall>k'. scene_column k' r' = (if k' = k then v else scene_column k' r))"
  using assms by (auto simp: data_columns_def set_scene_column_def scene_column_def)

lemma assign_data_columns:
  assumes "\<forall>kv \<in> set asg. fst kv \<in> set data_columns"
  shows "\<exists>r'. assign_columns set_scene_column asg r = Some r' \<and> scene_id r' = scene_id r \<and>
           (\<forall>k. scene_column k r' =
              (case map_of (rev asg) k of Some v \<Rightarrow> v | None \<Rightarrow> scene_column k r))"
  using assms
proof (induction asg arbitrary: r)
  case Nil
  then show ?case by simp
next
  case (Cons kv rest)
  obtain r1 where r1: "set_scene_column (fst kv) (snd kv) r = Some r1" "scene_id r1 = scene_id r"
    "\<forall>k'. scene_column k' r1 = (if k' = fst kv then snd kv else scene_column k' r)"
    using set_data_column [of "fst kv" "snd kv" r] Cons.prems by auto
  obtain r' where r': "assign_columns set_scene_column rest r1 = Some r'"
    "scene_id r' = scene_id r1"
    "\<forall>k. scene_column k r' =
       (case map_of (rev rest) k of Some v \<Rightarrow> v | None \<Rightarrow> scene_column k r1)"
    using Cons.IH [of r1] Cons.prems by auto
  have "scene_column k r' =
      (case map_of (rev (kv # rest)) k of Some v \<Rightarrow> v | None \<Rightarrow> scene_column k r)" for k
    using r'(3) r1(3) by (cases kv) (auto simp: map_add_def split: option.splits)
  with r1 r' show ?case by simp
qed

lemma update_where_total:
  "\<forall>r \<in> set rows. hit r \<longrightarrow> f r = Some (g r) \<Longrightarrow>
   update_where hit f rows = Some (map (\<lambda>r. if hit r then g r else r) rows)"
  by (induction rows) auto

lemma map_of_snd_map:
  "map_of (map (\<lambda>kv. (fst kv, f (snd kv))) xs) k = map_option f (map_of xs k)"
  by (induction xs) auto

lemma distinct_map_of_rev:
  assumes "distinct (map fst xs)"
  shows "map_of (rev xs) = map_of xs"
proof -
  have "distinct (map fst (rev xs))"
    using assms by (simp only: rev_map [symmetric] distinct_rev)
  then show ?thesis
    using assms by (simp add: map_of_inject_set)
qed

lemma sql_eq_int: "sql_eq (SInt a) (SInt b) \<longleftrightarrow> a = b"
  by (simp add: sql_eq_def)

lemma column_name_data: "k \<in> set data_columns \<Longrightarrow> column_name k = k"
  by (auto simp: data_columns_def column_name_def ascii_lower_def)

text \<open>
  Claim C8: for a valid update mapping \<open>u\<close>, \<^verbatim>\<open>update_scene\<close> succeeds and commits
  a database that differs from the one before only in the rows of \<open>scenes\<close> with the
  given id, which are changed by one function \<open>upd\<close>. In an updated row a column named
  in \<open>u\<close> reads as its mapped value and every other column, the id included, reads as
  before. No other row of \<open>scenes\<close> and no other table changes.
\<close>

theorem update_scene_frame:
  assumes "valid_updates u"
  shows "\<exists>upd.
     update_scene i u c =
       (Inr (), \<lparr>committed = (working c)\<lparr>scenes :=
                    map (\<lambda>r. if scene_id r = i then upd r else r) (scenes (working c))\<rparr>,
                 working = (working c)\<lparr>scenes :=
                    map (\<lambda>r. if scene_id r = i then upd r else r) (scenes (working c))\<rparr>\<rparr>) \<and>
     (\<forall>r k. to_py (scene_column k (upd r)) =
        (case map_of u k of Some v \<Rightarrow> v | None \<Rightarrow> to_py (scene_column k r)))"
proof -
  define keys where "keys = map fst u"
  from assms have nonempty: "keys \<noteq> []" and dist: "distinct keys"
    and incols: "\<forall>k \<in> set keys. k \<in> set data_columns"
    and storable: "list_all bindable (map snd u)"
    by (auto simp: valid_updates_def keys_def list_all_iff)
  from storable obtain ws where ws: "bind_params (map snd u) = Inr ws" "map to_py ws = map snd u"
    using bind_params_bindable by blast
  then have len: "length ws = length keys"
    by (metis keys_def length_map)
  define asg where "asg = zip keys ws"
  define upd where "upd r = the (assign_columns set_scene_column asg r)" for r
  have asg_keys: "\<forall>kv \<in> set asg. fst kv \<in> set data_columns"
    using incols by (auto simp: asg_def dest: set_zip_leftD)
  have upd: "assign_columns set_scene_column asg r = Some (upd r)"
    and upd_col: "scene_column k (upd r) =
      (case map_of (rev asg) k of Some v \<Rightarrow> v | None \<Rightarrow> scene_column k r)" for r k
    using assign_data_columns [OF asg_keys, of r] by (auto simp: upd_def)
  have dist_asg: "distinct (map fst asg)"
    using dist len by (simp add: asg_def)
  have "u = zip keys (map to_py ws)"
    by (simp add: keys_def ws(2) zip_map_fst_snd)
  then have u_zip: "u = map (\<lambda>kv. (fst kv, to_py (snd kv))) asg"
    by (simp add: asg_def zip_map2 case_prod_beta)
  have lookup: "map_of u k = map_option to_py (map_of (rev asg) k)" for k
    unfolding distinct_map_of_rev [OF dist_asg] u_zip by (rule map_of_snd_map)
  have col: "to_py (scene_column k (upd r)) =
      (case map_of u k of Some v \<Rightarrow> v | None \<Rightarrow> to_py (scene_column k r))" for r k
    by (simp add: upd_col lookup split: option.splits)
  have names: "map (\<lambda>kv. column_name (fst kv)) u = keys"
    using incols by (simp add: keys_def column_name_data)
  have prep: "prepare_update scenes_columns keys = None"
    using nonempty incols
    by (auto simp: prepare_update_def list_all_iff data_columns_def scenes_columns_def)
  have "''scene_id'' \<notin> set data_columns"
    by (simp add: data_columns_def)
  with incols have nokey: "''scene_id'' \<notin> set keys"
    by blast
  have params: "bind_params (map snd u @ [PInt i]) = Inr (ws @ [SInt i])"
    by (rule bind_params_append [OF ws(1)]) (simp add: bind_param_def)
  have rows: "update_where (\<lambda>r. sql_eq (SInt (scene_id r)) (SInt i))
      (assign_columns set_scene_column asg) (scenes (working c)) =
      Some (map (\<lambda>r. if scene_id r = i then upd r else r) (scenes (working c)))"
    by (subst update_where_total [where g = upd]) (simp_all add: upd sql_eq_int)
  have stmt: "sql_update_scenes keys (ws @ [SInt i]) (working c) =
      Inr ((working c)\<lparr>scenes :=
        map (\<lambda>r. if scene_id r = i then upd r else r) (scenes (working c))\<rparr>)"
    using rows nokey len by (simp add: sql_update_scenes_def Let_def asg_def)
  have "update_scene i u c =
       (Inr (), \<lparr>committed = (working c)\<lparr>scenes :=
                    map (\<lambda>r. if scene_id r = i then upd r else r) (scenes (working c))\<rparr>,
                 working = (working c)\<lparr>scenes :=
                    map (\<lambda>r. if scene_id r = i then upd r else r) (scenes (working c))\<rparr>\<rparr>)"
    using prep params stmt
    by (simp add: update_scene_def with_conn_def execute_prepared_def execute_def commit_def
        names)
  with col show ?thesis by blast
qed

theorem update_scene_frame_witness:
  "valid_updates [(''latitude'', PFloat 12.5)] \<and>
   (\<exists>upd.
     update_scene 1 [(''latitude'', PFloat 12.5)] example_store =
       (Inr (), \<lparr>committed = (working example_store)\<lparr>scenes :=
                    map (\<lambda>r. if scene_id r = 1 then upd r else r)
                      (scenes (working example_store))\<rparr>,
                 working = (working example_store)\<lparr>scenes :=
                    map (\<lambda>r. if scene_id r = 1 then upd r else r)
                      (scenes (working example_store))\<rparr>\<rparr>) \<and>
     (\<forall>r k. to_py (scene_column k (upd r)) =
        (case map_of [(''latitude'', PFloat 12.5)] k of
           Some v \<Rightarrow> v | None \<Rightarrow> to_py (scene_column k r))))"
  using update_scene_frame [of "[(''latitude'', PFloat 12.5)]" 1 example_store]
  by (simp add: valid_updates_def data_columns_def bindable_def)

text \<open>
  On the example store, whose scene has latitude 48.5, the update of the claim changes
  the latitude and nothing else.
\<close>

lemma update_scene_example:
  "get_scene 1 (snd (update_scene 1 [(''latitude'', PFloat 12.5)] example_store)) =
     Inr (PDict [(''scene_id'', PInt 1), (''timestamp'', PStr ''2024-05-01T10:00:00''),
       (''latitude'', PFloat 12.5), (''longitude'', PNone), (''resolution'', PNone),
       (''camera_id'', PStr ''cam-1''), (''media_path'', PStr ''a.jpg'')])"
  by code_simp

text \<open>Column names are matched without regard to case, as SQLite does.\<close>

lemma update_scene_upper_case_example:
  "fst (update_scene 1 [(''LATITUDE'', PFloat 12.5)] example_store) = Inr () \<and>
   get_scene 1 (snd (update_scene 1 [(''LATITUDE'', PFloat 12.5)] example_store)) =
     Inr (PDict [(''scene_id'', PInt 1), (''timestamp'', PStr ''2024-05-01T10:00:00''),
       (''latitude'', PFloat 12.5), (''longitude'', PNone), (''resolution'', PNone),
       (''camera_id'', PStr ''cam-1''), (''media_path'', PStr ''a.jpg'')])"
  by code_simp

section \<open>Deleting a scene\<close>

lemma sql_eq_unique: "sql_eq v (SInt a) \<Longrightarrow> sql_eq v (SInt b) \<Longrightarrow> a = b"
  by (cases v) (auto simp: sql_eq_def)

lemma sql_eq_null: "\<not> sql_eq SNull v"
  by (simp add: sql_eq_def)

lemma parent_exists_int:
  "parent_exists (SInt s) d \<longleftrightarrow> list_ex (\<lambda>r. scene_id r = s) (scenes d)"
  by (auto simp: parent_exists_def references_scene_def sql_eq_int list_ex_iff)

text \<open>A row that references \<open>s\<close> and has a parent: the parent is a scene with id \<open>s\<close>.\<close>

lemma referenced_parent:
  assumes "parent_exists v d" and "references_scene v s"
  shows "\<exists>r \<in> set (scenes d). scene_id r = s \<and> references_scene v (scene_id r)"
proof -
  from assms(2) have "v \<noteq> SNull"
    by (auto simp: references_scene_def sql_eq_null)
  with assms(1) obtain r where r: "r \<in> set (scenes d)" "references_scene v (scene_id r)"
    by (auto simp: parent_exists_def list_ex_iff)
  with assms(2) have "scene_id r = s"
    by (auto simp: references_scene_def dest: sql_eq_unique)
  with r show ?thesis by blast
qed

lemma cascade_removes:
  assumes "list_all (\<lambda>x. parent_exists (fk x) d) rows"
  shows "\<not> list_ex (\<lambda>x. references_scene (fk x) s)
           (filter (\<lambda>x. \<not> list_ex (\<lambda>r. references_scene (fk x) (scene_id r))
              (filter (\<lambda>r. sql_eq (SInt (scene_id r)) (SInt s)) (scenes d))) rows)"
proof -
  have False if "x \<in> set rows" "references_scene (fk x) s"
    "\<not> list_ex (\<lambda>r. references_scene (fk x) (scene_id r))
        (filter (\<lambda>r. sql_eq (SInt (scene_id r)) (SInt s)) (scenes d))" for x
  proof -
    from assms that(1) have "parent_exists (fk x) d" by (simp add: list_all_iff)
    from referenced_parent [OF this that(2)] that(3) show False
      by (auto simp: list_ex_iff sql_eq_int)
  qed
  then show ?thesis by (auto simp: list_ex_iff)
qed

text \<open>
  Claim C2: in a database with referential integrity, \<^verbatim>\<open>delete_scene\<close> succeeds and
  commits; afterwards no scene has the id \<open>s\<close>, no row of \<open>detections\<close>,
  \<open>annotations\<close>, \<open>scene_descriptions\<close> or \<open>datasets\<close> references \<open>s\<close>, and
  \<^verbatim>\<open>get_scene_detections\<close> returns the empty list.
\<close>

theorem delete_scene_cascade:
  assumes "fk_ok (working c)"
  shows "\<exists>c'. delete_scene s c = (Inr (), c') \<and> committed c' = working c' \<and>
           scene_absent s (working c') \<and> unreferenced s (working c') \<and>
           get_scene s c' = Inr PNone \<and> get_scene_detections s c' = Inr (PList [])"
proof -
  define d where "d = working c"
  define gone where "gone = filter (\<lambda>r. sql_eq (SInt (scene_id r)) (SInt s)) (scenes d)"
  define orphan where "orphan v = list_ex (\<lambda>r. references_scene v (scene_id r)) gone" for v
  define d' where "d' = d\<lparr>scenes := filter (\<lambda>r. \<not> sql_eq (SInt (scene_id r)) (SInt s)) (scenes d),
      detections := filter (\<lambda>x. \<not> orphan (det_scene_id x)) (detections d),
      annotations := filter (\<lambda>x. \<not> orphan (ann_scene_id x)) (annotations d),
      scene_descriptions := filter (\<lambda>x. \<not> orphan (desc_scene_id x)) (scene_descriptions d),
      datasets := filter (\<lambda>x. \<not> orphan (ds_scene_id x)) (datasets d)\<rparr>"
  define c' where "c' = \<lparr>committed = d', working = d'\<rparr>"
  have stmt: "sql_delete_scene [SInt s] d = Inr d'"
    by (simp add: sql_delete_scene_def Let_def d'_def orphan_def gone_def)
  have run: "delete_scene s c = (Inr (), c')"
    using stmt
    by (simp add: delete_scene_def with_conn_def execute_def bind_param_def commit_def
        c'_def d_def)
  have absent: "scene_absent s d'"
    by (auto simp: scene_absent_def d'_def list_ex_iff sql_eq_int)
  from assms have fk: "list_all (\<lambda>x. parent_exists (det_scene_id x) d) (detections d)"
    "list_all (\<lambda>x. parent_exists (ann_scene_id x) d) (annotations d)"
    "list_all (\<lambda>x. parent_exists (desc_scene_id x) d) (scene_descriptions d)"
    "list_all (\<lambda>x. parent_exists (ds_scene_id x) d) (datasets d)"
    by (simp_all add: fk_ok_def d_def)
  have unref: "unreferenced s d'"
    unfolding unreferenced_def d'_def orphan_def gone_def
    using cascade_removes [OF fk(1), of s] cascade_removes [OF fk(2), of s]
      cascade_removes [OF fk(3), of s] cascade_removes [OF fk(4), of s]
    by simp
  have "get_scene s c' = Inr PNone"
    using absent
    by (simp add: get_scene_eq c'_def scene_absent_def list_ex_iff filter_empty_conv
        split: list.splits)
  moreover have "get_scene_detections s c' = Inr (PList [])"
    using unref
    by (simp add: get_scene_detections_eq c'_def unreferenced_def list_ex_iff filter_empty_conv)
  ultimately show ?thesis
    using run absent unref by (auto simp: c'_def)
qed

theorem delete_scene_cascade_witness:
  "fk_ok (working example_library) \<and>
   (\<exists>c'. delete_scene 1 example_library = (Inr (), c') \<and> committed c' = working c' \<and>
      scene_absent 1 (working c') \<and> unreferenced 1 (working c') \<and>
      get_scene 1 c' = Inr PNone \<and> get_scene_detections 1 c' = Inr (PList []))"
proof -
  have ok: "fk_ok (working example_library)"
    by code_simp
  from delete_scene_cascade [OF ok, of 1] ok show ?thesis
    by simp
qed

text \<open>
  On the example library, deleting the first scene removes its two descriptions and its
  assignment with it: only the second scene is left in the training data.
\<close>

lemma delete_scene_example:
  "get_training_data (snd (delete_scene 1 example_library)) = PList
     [PTuple [PInt 2, PStr ''2024-05-02T10:00:00'', PNone, PNone, PNone, PStr ''cam-1'',
        PStr ''b.jpg'', PNone]] \<and>
   scene_descriptions (working (snd (delete_scene 1 example_library))) = []"
  by code_simp

section \<open>Inserting for a scene that does not exist\<close>

lemma scene_absent_parent: "scene_absent s d \<Longrightarrow> \<not> parent_exists (SInt s) d"
  by (simp add: scene_absent_def parent_exists_int)

lemma detection_values_valid:
  assumes "valid_detection v"
  shows "\<exists>rest. detection_values s v = Inr (PInt s # rest) \<and> length rest = 6 \<and>
           list_all bindable rest"
proof -
  from assms obtain d b where v: "v = PDict d" and d: "has_key d ''class''"
    "bindable (dict_get d ''class'')" "has_key d ''confidence''"
    "bindable (dict_get d ''confidence'')" "dict_get d ''bbox'' = PList b" "4 \<le> length b"
    "list_all bindable (take 4 b)"
    by (auto simp: valid_detection_def split: pyval.splits)
  from d(5) have bbox: "get_item d ''bbox'' = Inr (PList b)"
    by (auto simp: dict_get_def get_item_def split: option.splits)
  from d(6) obtain b0 b1 b2 b3 bs where b: "b = b0 # b1 # b2 # b3 # bs"
    by (cases b; cases "tl b"; cases "tl (tl b)"; cases "tl (tl (tl b))") auto
  show ?thesis
    using d(1-4,7) bbox
    by (simp add: v b detection_values_def py_getitem_def get_item_present py_index_def)
qed

lemma all_detection_values_valid:
  assumes "list_all valid_detection dets" and "dets \<noteq> []"
  shows "\<exists>rest vals. all_detection_values s dets = Inr ((PInt s # rest) # vals) \<and>
           list_all bindable rest \<and> length rest = 6"
proof -
  have total: "list_all valid_detection ds \<Longrightarrow> \<exists>vals. all_detection_values s ds = Inr vals" for ds
  proof (induction ds)
    case Nil
    then show ?case by simp
  next
    case (Cons x xs)
    then obtain rest vals where "detection_values s x = Inr (PInt s # rest)"
      "all_detection_values s xs = Inr vals"
      using detection_values_valid [of x s] by auto
    then show ?case by simp
  qed
  from assms obtain x xs where dets: "dets = x # xs" by (cases dets) auto
  with assms(1) obtain rest where rest: "detection_values s x = Inr (PInt s # rest)"
    "length rest = 6" "list_all bindable rest"
    using detection_values_valid [of x s] by auto
  from assms(1) dets obtain vals where "all_detection_values s xs = Inr vals"
    using total [of xs] by auto
  with rest show ?thesis by (simp add: dets)
qed

lemma insert_detection_refused:
  assumes "scene_absent s (working c)" and "list_all bindable rest" and "length rest = 6"
  shows "execute sql_insert_detection (PInt s # rest) c = (Inl IntegrityError, c)"
proof -
  from assms(2) obtain ws where ws: "bind_params rest = Inr ws" "map to_py ws = rest"
    using bind_params_bindable by blast
  with assms(3) have "length ws = 6" by (metis length_map)
  then obtain a b e f g h where "ws = [a, b, e, f, g, h]"
    by (auto simp: length_Suc_conv eval_nat_numeral)
  with ws(1) assms(1) show ?thesis
    by (simp add: execute_def bind_param_def sql_insert_detection_def scene_absent_parent)
qed

lemma add_detections_refused:
  assumes "scene_absent s (working c)" and "dets \<noteq> []" and "list_all valid_detection dets"
  shows "add_detections s dets c = (Inl IntegrityError, rollback c)"
proof -
  from all_detection_values_valid [OF assms(3,2), of s] obtain rest vals where
    v: "all_detection_values s dets = Inr ((PInt s # rest) # vals)" "list_all bindable rest"
    "length rest = 6"
    by blast
  show ?thesis
    using insert_detection_refused [OF assms(1) v(2,3)]
    by (simp add: add_detections_def v(1) with_conn_def)
qed

lemma add_annotation_refused:
  assumes "scene_absent s (working c)" and "valid_annotation a"
  shows "add_annotation s a c = (Inl IntegrityError, rollback c)"
proof -
  from assms(2) have key: "get_item a ''label_type'' = Inr (dict_get a ''label_type'')"
    by (simp add: valid_annotation_def get_item_present)
  from assms(2) obtain w1 w2 w3 w4 w5 w6 w7 w8 where
    "bind_param (dict_get a ''label_type'') = Inr w1"
    "bind_param (dict_get a ''description'') = Inr w2"
    "bind_param (dict_get a ''class_label'') = Inr w3"
    "bind_param (dict_get a ''x_min'') = Inr w4"
    "bind_param (dict_get a ''y_min'') = Inr w5"
    "bind_param (dict_get a ''x_max'') = Inr w6"
    "bind_param (dict_get a ''y_max'') = Inr w7"
    "bind_param (dict_get a ''annotated_by'') = Inr w8"
    unfolding valid_annotation_def by (auto dest!: bind_param_bindable)
  then show ?thesis
    using assms(1)
    by (simp add: add_annotation_def key with_conn_def execute_def bind_param_def
        sql_insert_annotation_def scene_absent_parent)
qed

lemma add_scene_description_refused:
  assumes "scene_absent s (working c)" and "bindable descr" "bindable conf" "bindable mv"
  shows "add_scene_description s descr conf mv c = (Inl IntegrityError, rollback c)"
proof -
  from assms(2-4) obtain w1 w2 w3 where
    "bind_param descr = Inr w1" "bind_param conf = Inr w2" "bind_param mv = Inr w3"
    by (auto dest!: bind_param_bindable)
  then show ?thesis
    using assms(1)
    by (simp add: add_scene_description_def with_conn_def execute_def bind_param_def
        sql_insert_description_def scene_absent_parent)
qed

lemma insert_datasets_refused:
  assumes "s \<in> set ids" and "scene_absent s (working c)"
  shows "\<exists>c'. executemany sql_insert_dataset (map (\<lambda>sid. [PInt sid, PStr dtype]) ids) c
           = (Inl IntegrityError, c') \<and> committed c' = committed c"
  using assms
proof (induction ids arbitrary: c)
  case Nil
  then show ?case by simp
next
  case (Cons i ids)
  show ?case
  proof (cases "parent_exists (SInt i) (working c)")
    case False
    then show ?thesis
      by (simp add: execute_def bind_param_def sql_insert_dataset_def)
  next
    case True
    with Cons.prems(2) have "i \<noteq> s"
      using scene_absent_parent by blast
    with Cons.prems(1) have mem: "s \<in> set ids" by simp
    define c1 where "c1 = c\<lparr>working := (working c)\<lparr>datasets := datasets (working c) @
      [\<lparr>ds_scene_id = SInt i, dataset_type = SText dtype\<rparr>]\<rparr>\<rparr>"
    have step: "execute sql_insert_dataset [PInt i, PStr dtype] c = (Inr (), c1)"
      using True by (simp add: execute_def bind_param_def sql_insert_dataset_def c1_def)
    have "scene_absent s (working c1)"
      using Cons.prems(2) by (simp add: c1_def scene_absent_def)
    from Cons.IH [OF mem this] obtain c' where
      "executemany sql_insert_dataset (map (\<lambda>sid. [PInt sid, PStr dtype]) ids) c1
         = (Inl IntegrityError, c')" "committed c' = committed c1"
      by blast
    with step show ?thesis by (simp add: c1_def)
  qed
qed

lemma assign_to_dataset_refused:
  assumes "s \<in> set ids" and "scene_absent s (working c)"
  shows "assign_to_dataset ids dtype c = (Inl IntegrityError, rollback (c\<lparr>working := committed c\<rparr>))"
proof -
  from insert_datasets_refused [OF assms, of dtype] obtain c' where
    c': "executemany sql_insert_dataset (map (\<lambda>sid. [PInt sid, PStr dtype]) ids) c
           = (Inl IntegrityError, c')" "committed c' = committed c"
    by blast
  have "rollback c' = rollback (c\<lparr>working := committed c\<rparr>)"
    using c'(2) by (cases c'; cases c) (simp add: rollback_def)
  with c'(1) show ?thesis
    by (simp add: assign_to_dataset_def with_conn_def)
qed

text \<open>
  Claim C4: let \<open>s\<close> be the id of no stored scene, on a connection whose dependent
  tables have nothing uncommitted. Then \<^verbatim>\<open>add_detections\<close> with a non-empty list of
  well-formed records, \<^verbatim>\<open>add_annotation\<close> with a well-formed annotation,
  \<^verbatim>\<open>add_scene_description\<close> with storable values, and \<^verbatim>\<open>assign_to_dataset\<close> with
  a list of ids that contains \<open>s\<close> each raise \<open>IntegrityError\<close>, leave their table
  as it was and leave the committed database unchanged.
\<close>

theorem insert_for_missing_scene:
  assumes "scene_absent s (working c)" and "children_committed c"
  shows "(dets \<noteq> [] \<and> list_all valid_detection dets \<longrightarrow>
            fst (add_detections s dets c) = Inl IntegrityError \<and>
            detections (working (snd (add_detections s dets c))) = detections (working c) \<and>
            committed (snd (add_detections s dets c)) = committed c) \<and>
         (valid_annotation ann \<longrightarrow>
            fst (add_annotation s ann c) = Inl IntegrityError \<and>
            annotations (working (snd (add_annotation s ann c))) = annotations (working c) \<and>
            committed (snd (add_annotation s ann c)) = committed c) \<and>
         (bindable descr \<and> bindable conf \<and> bindable mv \<longrightarrow>
            fst (add_scene_description s descr conf mv c) = Inl IntegrityError \<and>
            scene_descriptions (working (snd (add_scene_description s descr conf mv c)))
              = scene_descriptions (working c) \<and>
            committed (snd (add_scene_description s descr conf mv c)) = committed c) \<and>
         (s \<in> set ids \<longrightarrow>
            fst (assign_to_dataset ids dtype c) = Inl IntegrityError \<and>
            datasets (working (snd (assign_to_dataset ids dtype c))) = datasets (working c) \<and>
            committed (snd (assign_to_dataset ids dtype c)) = committed c)"
  using assms
  by (auto simp: add_detections_refused add_annotation_refused add_scene_description_refused
      assign_to_dataset_refused rollback_def children_committed_def)

theorem insert_for_missing_scene_witness:
  "scene_absent 7 (working example_library) \<and> children_committed example_library \<and>
   fst (add_detections 7 [example_detection] example_library) = Inl IntegrityError \<and>
   detections (working (snd (add_detections 7 [example_detection] example_library)))
     = detections (working example_library) \<and>
   fst (add_annotation 7 [(''label_type'', PStr ''classification'')] example_library)
     = Inl IntegrityError \<and>
   fst (add_scene_description 7 (PStr ''a road'') (PFloat 0.5) (PStr ''v1'') example_library)
     = Inl IntegrityError \<and>
   fst (assign_to_dataset [1, 7] ''train'' example_library) = Inl IntegrityError \<and>
   datasets (working (snd (assign_to_dataset [1, 7] ''train'' example_library)))
     = datasets (working example_library)"
proof -
  have absent: "scene_absent 7 (working example_library)"
    by code_simp
  have clean: "children_committed example_library"
    by code_simp
  have dets: "list_all valid_detection [example_detection]"
    by (simp add: valid_detection_def example_detection_def has_key_def dict_get_def
        bindable_def)
  have ann: "valid_annotation [(''label_type'', PStr ''classification'')]"
    by (simp add: valid_annotation_def has_key_def dict_get_def bindable_def)
  have vals: "bindable (PStr ''a road'')" "bindable (PFloat 0.5)" "bindable (PStr ''v1'')"
    by (simp_all add: bindable_def)
  from insert_for_missing_scene [OF absent clean, of "[example_detection]"
      "[(''label_type'', PStr ''classification'')]" "PStr ''a road''" "PFloat 0.5" "PStr ''v1''"
      "[1, 7]" "''train''"]
    absent clean dets ann vals
  show ?thesis by simp
qed

section \<open>The invariant of the store\<close>

text \<open>
  The properties above of \<^verbatim>\<open>delete_scene\<close>, of the inserts for a missing scene and of
  \<^verbatim>\<open>get_training_data\<close> assume referential integrity, distinct scene ids, or that
  nothing is uncommitted on the dependent tables. These hold of a new database and
  every write operation keeps them, whether it returns or raises.
\<close>

lemma parent_exists_iff:
  "parent_exists v d \<longleftrightarrow> v = SNull \<or> (\<exists>i \<in> scene_id ` set (scenes d). references_scene v i)"
  by (auto simp: parent_exists_def list_ex_iff)

lemma parent_exists_mono:
  "parent_exists v d \<Longrightarrow> scene_id ` set (scenes d) \<subseteq> scene_id ` set (scenes d') \<Longrightarrow>
   parent_exists v d'"
  unfolding parent_exists_iff by blast

lemma fk_ok_iff:
  "fk_ok d \<longleftrightarrow>
     (\<forall>x \<in> set (detections d). parent_exists (det_scene_id x) d) \<and>
     (\<forall>x \<in> set (annotations d). parent_exists (ann_scene_id x) d) \<and>
     (\<forall>x \<in> set (scene_descriptions d). parent_exists (desc_scene_id x) d) \<and>
     (\<forall>x \<in> set (datasets d). parent_exists (ds_scene_id x) d)"
  by (simp add: fk_ok_def list_all_iff)

lemma consistent_new_database: "consistent new_database"
  by (simp add: consistent_def sound_def db_ok_def fk_ok_def children_committed_def
      new_database_def empty_db_def)

lemma insert_scene_ok:
  assumes "db_ok d" and "sql_insert_scene vs d = Inr d'"
  shows "db_ok d' \<and> detections d' = detections d \<and> annotations d' = annotations d \<and>
         scene_descriptions d' = scene_descriptions d \<and> datasets d' = datasets d"
proof -
  from assms(2) obtain new where d': "d' = d\<lparr>scenes := scenes d @ [new],
      scenes_seq := scene_id new\<rparr>"
    and new: "scene_id new = next_rowid (scenes_seq d) (map scene_id (scenes d))"
    by (auto simp: sql_insert_scene_def Let_def split: list.splits)
  have fresh: "scene_id new \<notin> scene_id ` set (scenes d)"
    using next_rowid_fresh [of _ "map scene_id (scenes d)" "scenes_seq d"] new by force
  have "parent_exists v d'" if "parent_exists v d" for v
    using that by (rule parent_exists_mono) (auto simp: d')
  with assms(1) have "fk_ok d'"
    by (simp add: db_ok_def fk_ok_iff) (simp add: d')
  with assms(1) fresh show ?thesis
    by (simp add: db_ok_def d')
qed

lemma insert_detection_ok:
  assumes "db_ok d" and "sql_insert_detection vs d = Inr d'"
  shows "db_ok d'"
proof -
  from assms(2) have same: "scenes d' = scenes d" "annotations d' = annotations d" "scene_descriptions d' = scene_descriptions d" "datasets d' = datasets d"
    and new: "\<exists>new. detections d' = detections d @ [new] \<and> parent_exists (det_scene_id new) d"
    by (auto simp: sql_insert_detection_def Let_def split: list.splits if_splits)
  have "parent_exists v d' = parent_exists v d" for v
    by (simp add: parent_exists_def same)
  with assms(1) new same show ?thesis
    by (auto simp: db_ok_def fk_ok_iff)
qed

lemma insert_annotation_ok:
  assumes "db_ok d" and "sql_insert_annotation vs d = Inr d'"
  shows "db_ok d'"
proof -
  from assms(2) have same: "scenes d' = scenes d" "detections d' = detections d" "scene_descriptions d' = scene_descriptions d" "datasets d' = datasets d"
    and new: "\<exists>new. annotations d' = annotations d @ [new] \<and> parent_exists (ann_scene_id new) d"
    by (auto simp: sql_insert_annotation_def Let_def split: list.splits if_splits)
  have "parent_exists v d' = parent_exists v d" for v
    by (simp add: parent_exists_def same)
  with assms(1) new same show ?thesis
    by (auto simp: db_ok_def fk_ok_iff)
qed

lemma insert_description_ok:
  assumes "db_ok d" and "sql_insert_description vs d = Inr d'"
  shows "db_ok d'"
proof -
  from assms(2) have same: "scenes d' = scenes d" "detections d' = detections d" "annotations d' = annotations d" "datasets d' = datasets d"
    and new: "\<exists>new. scene_descriptions d' = scene_descriptions d @ [new] \<and> parent_exists (desc_scene_id new) d"
    by (auto simp: sql_insert_description_def Let_def split: list.splits if_splits)
  have "parent_exists v d' = parent_exists v d" for v
    by (simp add: parent_exists_def same)
  with assms(1) new same show ?thesis
    by (auto simp: db_ok_def fk_ok_iff)
qed

lemma insert_dataset_ok:
  assumes "db_ok d" and "sql_insert_dataset vs d = Inr d'"
  shows "db_ok d'"
proof -
  from assms(2) have same: "scenes d' = scenes d" "detections d' = detections d" "annotations d' = annotations d" "scene_descriptions d' = scene_descriptions d"
    and new: "\<exists>new. datasets d' = datasets d @ [new] \<and> parent_exists (ds_scene_id new) d"
    by (auto simp: sql_insert_dataset_def Let_def split: list.splits if_splits)
  have "parent_exists v d' = parent_exists v d" for v
    by (simp add: parent_exists_def same)
  with assms(1) new same show ?thesis
    by (auto simp: db_ok_def fk_ok_iff)
qed


lemma delete_scene_ok:
  assumes "db_ok d" and "sql_delete_scene vs d = Inr d'"
  shows "db_ok d'"
proof -
  from assms(2) obtain idv where vs: "vs = [idv]"
    by (auto simp: sql_delete_scene_def split: list.splits)
  define hit where "hit = (\<lambda>r::scene. sql_eq (SInt (scene_id r)) idv)"
  define orphan where
    "orphan = (\<lambda>v. list_ex (\<lambda>r. references_scene v (scene_id r)) (filter hit (scenes d)))"
  from assms(2) have d': "scenes d' = filter (\<lambda>r. \<not> hit r) (scenes d)"
    "detections d' = filter (\<lambda>x. \<not> orphan (det_scene_id x)) (detections d)"
    "annotations d' = filter (\<lambda>x. \<not> orphan (ann_scene_id x)) (annotations d)"
    "scene_descriptions d' = filter (\<lambda>x. \<not> orphan (desc_scene_id x)) (scene_descriptions d)"
    "datasets d' = filter (\<lambda>x. \<not> orphan (ds_scene_id x)) (datasets d)"
    by (auto simp: sql_delete_scene_def vs Let_def hit_def orphan_def)
  have keep: "parent_exists v d'" if "parent_exists v d" "\<not> orphan v" for v
    using that unfolding parent_exists_def d'(1) orphan_def list_ex_iff by auto
  have "distinct (map scene_id (scenes d'))"
    using assms(1) by (simp add: db_ok_def d'(1) distinct_map_filter)
  moreover have "fk_ok d'"
    using assms(1) keep unfolding db_ok_def fk_ok_iff d'(2-5) by auto
  ultimately show ?thesis by (simp add: db_ok_def)
qed

lemma delete_detection_ok:
  assumes "db_ok d" and "sql_delete_detection vs d = Inr d'"
  shows "db_ok d'"
proof -
  from assms(2) obtain P where "d' = d\<lparr>detections := filter P (detections d)\<rparr>"
    by (auto simp: sql_delete_detection_def split: list.splits)
  with assms(1) show ?thesis
    by (auto simp: db_ok_def fk_ok_iff parent_exists_def)
qed

lemma delete_annotation_ok:
  assumes "db_ok d" and "sql_delete_annotation vs d = Inr d'"
  shows "db_ok d'"
proof -
  from assms(2) obtain P where "d' = d\<lparr>annotations := filter P (annotations d)\<rparr>"
    by (auto simp: sql_delete_annotation_def split: list.splits)
  with assms(1) show ?thesis
    by (auto simp: db_ok_def fk_ok_iff parent_exists_def)
qed

subsection \<open>Updates\<close>

lemma update_where_none: "\<not> list_ex hit rows \<Longrightarrow> update_where hit f rows = Some rows"
  by (induction rows) auto

lemma update_where_map:
  "update_where hit f rows = Some rows' \<Longrightarrow>
   \<forall>r \<in> set rows. hit r \<longrightarrow> (\<forall>r'. f r = Some r' \<longrightarrow> g r' = g r) \<Longrightarrow>
   map g rows' = map g rows"
  by (induction rows arbitrary: rows') (auto split: option.splits if_splits)

lemma update_where_all:
  "update_where hit f rows = Some rows' \<Longrightarrow>
   \<forall>r \<in> set rows. hit r \<longrightarrow> (\<forall>r'. f r = Some r' \<longrightarrow> P r') \<Longrightarrow>
   \<forall>r \<in> set rows. \<not> hit r \<longrightarrow> P r \<Longrightarrow>
   \<forall>r' \<in> set rows'. P r'"
  by (induction rows arbitrary: rows') (auto split: option.splits if_splits)

lemma update_where_keeps:
  "update_where hit f rows = Some rows' \<Longrightarrow> r \<in> set rows \<Longrightarrow> \<not> hit r \<Longrightarrow> r \<in> set rows'"
  by (induction rows arbitrary: rows') (auto split: option.splits if_splits)


lemma sql_eq_trans_int: "sql_eq v (SInt a) \<Longrightarrow> sql_eq (SInt a) w \<Longrightarrow> sql_eq v w"
  by (cases v; cases w) (auto simp: sql_eq_def)

lemma set_scene_column_id:
  "set_scene_column k v r = Some r' \<Longrightarrow> k \<noteq> ''scene_id'' \<Longrightarrow> scene_id r' = scene_id r"
  by (auto simp: set_scene_column_def split: if_splits)

lemma assign_scene_id:
  "assign_columns set_scene_column asg r = Some r' \<Longrightarrow> ''scene_id'' \<notin> fst ` set asg \<Longrightarrow>
   scene_id r' = scene_id r"
proof (induction asg arbitrary: r)
  case Nil
  then show ?case by simp
next
  case (Cons kv rest)
  then obtain r1 where r1: "set_scene_column (fst kv) (snd kv) r = Some r1"
    "assign_columns set_scene_column rest r1 = Some r'"
    by (auto split: option.splits)
  from r1(1) Cons.prems(2) have "scene_id r1 = scene_id r"
    by (intro set_scene_column_id) auto
  with Cons.IH [OF r1(2)] Cons.prems(2) show ?case by simp
qed

lemma update_scenes_ok:
  assumes "db_ok d" and "sql_update_scenes keys vs d = Inr d'"
  shows "db_ok d'"
proof -
  define idv where "idv = last vs"
  define hit where "hit = (\<lambda>r::scene. sql_eq (SInt (scene_id r)) idv)"
  define asg where "asg = zip keys (butlast vs)"
  from assms(2) obtain rows' where
    rows': "update_where hit (assign_columns set_scene_column asg) (scenes d) = Some rows'"
    and d': "d' = d\<lparr>scenes := rows'\<rparr>"
    and checked: "''scene_id'' \<in> set keys \<and> list_ex hit (scenes d) \<Longrightarrow>
      distinct (map scene_id rows') \<and> children_have_parent idv d'"
    by (auto simp: sql_update_scenes_def Let_def idv_def hit_def asg_def
        split: if_splits option.splits)
  show ?thesis
  proof (cases "''scene_id'' \<in> set keys \<and> list_ex hit (scenes d)")
    case True
    with checked have dist: "distinct (map scene_id rows')" and chp: "children_have_parent idv d'"
      by simp_all
    have keep: "parent_exists v d'" if old: "parent_exists v d"
      and guard: "\<not> sql_eq v idv \<or> parent_exists v d'" for v
    proof (cases "sql_eq v idv")
      case True
      with guard show ?thesis by simp
    next
      case False
      show ?thesis
      proof (cases "v = SNull")
        case True
        then show ?thesis by (simp add: parent_exists_def)
      next
        case notnull: False
        with old obtain r0 where r0: "r0 \<in> set (scenes d)" "references_scene v (scene_id r0)"
          by (auto simp: parent_exists_def list_ex_iff)
        have "\<not> hit r0"
          using r0(2) False sql_eq_trans_int [of v "scene_id r0" idv]
          by (auto simp: hit_def references_scene_def)
        with rows' r0(1) have "r0 \<in> set rows'" by (rule update_where_keeps)
        with r0(2) show ?thesis
          by (auto simp: parent_exists_def list_ex_iff d')
      qed
    qed
    have "fk_ok d'"
      using assms(1) chp keep
      unfolding db_ok_def fk_ok_iff children_have_parent_def list_all_iff
      by (simp add: d') blast
    with dist show ?thesis by (simp add: db_ok_def d')
  next
    case False
    have ids: "map scene_id rows' = map scene_id (scenes d)"
    proof (cases "list_ex hit (scenes d)")
      case noex: False
      with rows' show ?thesis by (simp add: update_where_none)
    next
      case True
      with False have nokey: "''scene_id'' \<notin> set keys" by simp
      then have "''scene_id'' \<notin> fst ` set asg"
        by (auto simp: asg_def dest: set_zip_leftD)
      then show ?thesis
        using rows' by (intro update_where_map [OF rows']) (auto dest: assign_scene_id)
    qed
    then have "scene_id ` set rows' = scene_id ` set (scenes d)"
      by (metis set_map)
    then have "parent_exists v d' = parent_exists v d" for v
      by (simp add: parent_exists_iff d')
    with assms(1) ids show ?thesis
      by (simp add: db_ok_def fk_ok_iff d')
  qed
qed


lemma set_detection_column_fk:
  "set_detection_column k v r = Some r' \<Longrightarrow> det_scene_id r' = (if k = ''scene_id'' then v else det_scene_id r)"
  by (auto simp: set_detection_column_def split: if_splits sqlval.splits)

lemma assign_detection_fk:
  "assign_columns set_detection_column asg r = Some r' \<Longrightarrow>
   det_scene_id r' = (case map_of (rev asg) ''scene_id'' of Some v \<Rightarrow> v | None \<Rightarrow> det_scene_id r)"
proof (induction asg arbitrary: r)
  case Nil
  then show ?case by simp
next
  case (Cons kv rest)
  then obtain r1 where r1: "set_detection_column (fst kv) (snd kv) r = Some r1"
    "assign_columns set_detection_column rest r1 = Some r'"
    by (auto split: option.splits)
  from set_detection_column_fk [OF r1(1)] Cons.IH [OF r1(2)] show ?case
    by (cases kv) (auto simp: map_add_def split: option.splits)
qed

lemma update_detections_ok:
  assumes "db_ok d" and "sql_update_detections keys vs d = Inr d'"
  shows "db_ok d'"
proof -
  define idv where "idv = last vs"
  define hit where "hit = (\<lambda>r::detection. sql_eq (SInt (detection_id r)) idv)"
  define asg where "asg = zip keys (butlast vs)"
  from assms(2) obtain rows' where
    rows': "update_where hit (assign_columns set_detection_column asg) (detections d) = Some rows'"
    and d': "d' = d\<lparr>detections := rows'\<rparr>"
    and checked: "\<And>v. list_ex hit (detections d) \<Longrightarrow> map_of (rev asg) ''scene_id'' = Some v \<Longrightarrow>
      parent_exists v d"
    by (auto simp: sql_update_detections_def Let_def idv_def hit_def asg_def
        split: if_splits option.splits)
  have "\<forall>r' \<in> set rows'. parent_exists (det_scene_id r') d"
  proof (rule update_where_all [OF rows'])
    show "\<forall>r \<in> set (detections d). hit r \<longrightarrow>
        (\<forall>r'. assign_columns set_detection_column asg r = Some r' \<longrightarrow> parent_exists (det_scene_id r') d)"
    proof (intro ballI impI allI)
      fix r r' assume r: "r \<in> set (detections d)" "hit r"
        and r': "assign_columns set_detection_column asg r = Some r'"
      from r have ex: "list_ex hit (detections d)" by (auto simp: list_ex_iff)
      from assms(1) r(1) have old: "parent_exists (det_scene_id r) d"
        by (simp add: db_ok_def fk_ok_iff)
      show "parent_exists (det_scene_id r') d"
        using assign_detection_fk [OF r'] checked [OF ex] old
        by (auto split: option.splits)
    qed
    show "\<forall>r \<in> set (detections d). \<not> hit r \<longrightarrow> parent_exists (det_scene_id r) d"
      using assms(1) by (simp add: db_ok_def fk_ok_iff)
  qed
  moreover have "parent_exists v d' = parent_exists v d" for v
    by (simp add: parent_exists_def d')
  ultimately show ?thesis
    using assms(1) by (simp add: db_ok_def fk_ok_iff d')
qed

lemma set_annotation_column_fk:
  "set_annotation_column k v r = Some r' \<Longrightarrow> ann_scene_id r' = (if k = ''scene_id'' then v else ann_scene_id r)"
  by (auto simp: set_annotation_column_def split: if_splits sqlval.splits)

lemma assign_annotation_fk:
  "assign_columns set_annotation_column asg r = Some r' \<Longrightarrow>
   ann_scene_id r' = (case map_of (rev asg) ''scene_id'' of Some v \<Rightarrow> v | None \<Rightarrow> ann_scene_id r)"
proof (induction asg arbitrary: r)
  case Nil
  then show ?case by simp
next
  case (Cons kv rest)
  then obtain r1 where r1: "set_annotation_column (fst kv) (snd kv) r = Some r1"
    "assign_columns set_annotation_column rest r1 = Some r'"
    by (auto split: option.splits)
  from set_annotation_column_fk [OF r1(1)] Cons.IH [OF r1(2)] show ?case
    by (cases kv) (auto simp: map_add_def split: option.splits)
qed

lemma update_annotations_ok:
  assumes "db_ok d" and "sql_update_annotations keys vs d = Inr d'"
  shows "db_ok d'"
proof -
  define idv where "idv = last vs"
  define hit where "hit = (\<lambda>r::annotation. sql_eq (SInt (annotation_id r)) idv)"
  define asg where "asg = zip keys (butlast vs)"
  from assms(2) obtain rows' where
    rows': "update_where hit (assign_columns set_annotation_column asg) (annotations d) = Some rows'"
    and d': "d' = d\<lparr>annotations := rows'\<rparr>"
    and checked: "\<And>v. list_ex hit (annotations d) \<Longrightarrow> map_of (rev asg) ''scene_id'' = Some v \<Longrightarrow>
      parent_exists v d"
    by (auto simp: sql_update_annotations_def Let_def idv_def hit_def asg_def
        split: if_splits option.splits)
  have "\<forall>r' \<in> set rows'. parent_exists (ann_scene_id r') d"
  proof (rule update_where_all [OF rows'])
    show "\<forall>r \<in> set (annotations d). hit r \<longrightarrow>
        (\<forall>r'. assign_columns set_annotation_column asg r = Some r' \<longrightarrow> parent_exists (ann_scene_id r') d)"
    proof (intro ballI impI allI)
      fix r r' assume r: "r \<in> set (annotations d)" "hit r"
        and r': "assign_columns set_annotation_column asg r = Some r'"
      from r have ex: "list_ex hit (annotations d)" by (auto simp: list_ex_iff)
      from assms(1) r(1) have old: "parent_exists (ann_scene_id r) d"
        by (simp add: db_ok_def fk_ok_iff)
      show "parent_exists (ann_scene_id r') d"
        using assign_annotation_fk [OF r'] checked [OF ex] old
        by (auto split: option.splits)
    qed
    show "\<forall>r \<in> set (annotations d). \<not> hit r \<longrightarrow> parent_exists (ann_scene_id r) d"
      using assms(1) by (simp add: db_ok_def fk_ok_iff)
  qed
  moreover have "parent_exists v d' = parent_exists v d" for v
    by (simp add: parent_exists_def d')
  ultimately show ?thesis
    using assms(1) by (simp add: db_ok_def fk_ok_iff d')
qed


subsection \<open>The connection\<close>

lemma consistent_sound: "consistent c \<Longrightarrow> sound c"
  by (simp add: consistent_def)

lemma commit_consistent: "sound c \<Longrightarrow> consistent (commit c)"
  by (simp add: consistent_def sound_def children_committed_def commit_def)

lemma rollback_consistent: "sound c \<Longrightarrow> consistent (rollback c)"
  by (simp add: consistent_def sound_def children_committed_def rollback_def)

lemma with_conn_consistent: "sound (snd (body c)) \<Longrightarrow> consistent (snd (with_conn body c))"
  by (auto simp: with_conn_def commit_consistent rollback_consistent
      split: prod.splits sum.splits)

lemma execute_sound:
  assumes "\<And>vs d d'. db_ok d \<Longrightarrow> stmt vs d = Inr d' \<Longrightarrow> db_ok d'" and "sound c"
  shows "sound (snd (execute stmt ps c))"
  using assms by (auto simp: execute_def sound_def split: sum.splits)

lemma executemany_sound:
  assumes "\<And>vs d d'. db_ok d \<Longrightarrow> stmt vs d = Inr d' \<Longrightarrow> db_ok d'" and "sound c"
  shows "sound (snd (executemany stmt pss c))"
  using assms(2)
proof (induction pss arbitrary: c)
  case Nil
  then show ?case by simp
next
  case (Cons ps pss)
  have step: "sound (snd (execute stmt ps c))"
    using assms(1) Cons.prems by (rule execute_sound)
  show ?case
  proof (cases "execute stmt ps c")
    case (Pair r c1)
    with step Cons.IH [of c1] show ?thesis
      by (cases r) simp_all
  qed
qed

lemma execute_prepared_sound:
  assumes "\<And>vs d d'. db_ok d \<Longrightarrow> stmt vs d = Inr d' \<Longrightarrow> db_ok d'" and "sound c"
  shows "sound (snd (execute_prepared prep stmt ps c))"
  using execute_sound [OF assms] assms(2) by (cases prep) (simp_all add: execute_prepared_def)

subsection \<open>Every operation keeps the invariant\<close>

lemma add_scene_consistent:
  assumes "consistent c"
  shows "consistent (snd (add_scene m c))"
proof -
  have "consistent (snd (execute sql_insert_scene ps c))" for ps
  proof (cases "bind_params ps")
    case (Inl e)
    with assms show ?thesis by (simp add: execute_def)
  next
    case (Inr vs)
    show ?thesis
    proof (cases "sql_insert_scene vs (working c)")
      case (Inl e)
      with Inr assms show ?thesis by (simp add: execute_def)
    next
      case ok: (Inr d')
      from assms have "db_ok (working c)" by (simp add: consistent_def sound_def)
      from insert_scene_ok [OF this ok] assms Inr ok show ?thesis
        by (simp add: execute_def consistent_def sound_def children_committed_def)
    qed
  qed
  then have "consistent c'" if "execute sql_insert_scene ps c = (r, c')" for ps r c'
    using that by (metis snd_conv)
  then show ?thesis
    using assms by (auto simp: add_scene_def split: sum.splits prod.splits)
qed

lemma add_detections_consistent:
  assumes "consistent c"
  shows "consistent (snd (add_detections s dets c))"
proof (cases "all_detection_values s dets")
  case (Inl e)
  with assms show ?thesis by (simp add: add_detections_def)
next
  case (Inr vals)
  have "consistent (snd (with_conn (executemany sql_insert_detection vals) c))"
    using assms
    by (intro with_conn_consistent executemany_sound consistent_sound)
      (rule insert_detection_ok)
  with Inr show ?thesis by (simp add: add_detections_def)
qed

lemma add_annotation_consistent:
  assumes "consistent c"
  shows "consistent (snd (add_annotation s a c))"
proof (cases "get_item a ''label_type''")
  case (Inl e)
  with assms show ?thesis by (simp add: add_annotation_def)
next
  case (Inr lt)
  have "consistent (snd (with_conn (execute sql_insert_annotation ps) c))" for ps
    using assms
    by (intro with_conn_consistent execute_sound consistent_sound)
      (rule insert_annotation_ok)
  with Inr show ?thesis by (simp add: add_annotation_def)
qed

lemma assign_to_dataset_consistent:
  "consistent c \<Longrightarrow> consistent (snd (assign_to_dataset ids dtype c))"
  unfolding assign_to_dataset_def
  by (intro with_conn_consistent executemany_sound consistent_sound) (rule insert_dataset_ok)

lemma add_scene_description_consistent:
  "consistent c \<Longrightarrow> consistent (snd (add_scene_description s descr conf mv c))"
  unfolding add_scene_description_def
  by (intro with_conn_consistent execute_sound consistent_sound) (rule insert_description_ok)

lemma update_one_consistent:
  assumes "consistent c"
  shows "consistent (snd (update_one scn c))"
proof -
  have scene: "consistent c1" if "add_scene m c = (r, c1)" for m r c1
    using add_scene_consistent [OF assms, of m] that by simp
  have dets: "consistent c2" if "add_detections s ds c1 = (r, c2)" "consistent c1"
    for s ds c1 r c2
    using add_detections_consistent [OF that(2), of s ds] that(1) by simp
  show ?thesis
    using assms
    by (auto simp: update_one_def split: sum.splits prod.splits pyval.splits if_splits
        dest!: scene dest: dets intro!: add_scene_description_consistent)
qed

lemma update_all_consistent: "consistent c \<Longrightarrow> consistent (snd (update_all xs c))"
proof (induction xs arbitrary: c)
  case Nil
  then show ?case by simp
next
  case (Cons x xs)
  from update_one_consistent [OF Cons.prems, of x] Cons.IH show ?case
    by (auto split: prod.splits sum.splits)
qed

lemma incremental_update_consistent:
  "consistent c \<Longrightarrow> consistent (snd (incremental_update xs c))"
  unfolding incremental_update_def
  by (intro with_conn_consistent consistent_sound update_all_consistent)

lemma update_scene_consistent: "consistent c \<Longrightarrow> consistent (snd (update_scene i u c))"
  unfolding update_scene_def
  by (intro with_conn_consistent execute_prepared_sound consistent_sound) (rule update_scenes_ok)

lemma update_detection_consistent: "consistent c \<Longrightarrow> consistent (snd (update_detection i u c))"
  unfolding update_detection_def
  by (intro with_conn_consistent execute_prepared_sound consistent_sound)
    (rule update_detections_ok)

lemma update_annotation_consistent: "consistent c \<Longrightarrow> consistent (snd (update_annotation i u c))"
  unfolding update_annotation_def
  by (intro with_conn_consistent execute_prepared_sound consistent_sound)
    (rule update_annotations_ok)

lemma delete_scene_consistent: "consistent c \<Longrightarrow> consistent (snd (delete_scene i c))"
  unfolding delete_scene_def
  by (intro with_conn_consistent execute_sound consistent_sound) (rule delete_scene_ok)

lemma delete_detection_consistent: "consistent c \<Longrightarrow> consistent (snd (delete_detection i c))"
  unfolding delete_detection_def
  by (intro with_conn_consistent execute_sound consistent_sound) (rule delete_detection_ok)

lemma delete_annotation_consistent: "consistent c \<Longrightarrow> consistent (snd (delete_annotation i c))"
  unfolding delete_annotation_def
  by (intro with_conn_consistent execute_sound consistent_sound) (rule delete_annotation_ok)

lemma consistent_facts:
  assumes "consistent c"
  shows "fk_ok (working c)" and "children_committed c"
    and "distinct (map scene_id (scenes (working c)))"
  using assms by (simp_all add: consistent_def sound_def db_ok_def)

lemma create_scene_consistent: "consistent c \<Longrightarrow> consistent (snd (create_scene m c))"
  by (simp add: create_scene_def add_scene_consistent)

lemma example_library_consistent: "consistent example_library"
  unfolding example_library_def
  by (intro assign_to_dataset_consistent add_scene_description_consistent
      create_scene_consistent consistent_new_database)
subsection \<open>Scene ids in the joined tables are integers\<close>

text \<open>
  Only the inserts of \<^verbatim>\<open>add_scene_description\<close> and \<^verbatim>\<open>assign_to_dataset\<close> and the
  cascade of \<^verbatim>\<open>delete_scene\<close> change \<open>scene_descriptions\<close> and \<open>datasets\<close>; the
  inserts bind the scene id the caller passed, an integer.
\<close>

lemma keyed_new_database: "keyed new_database"
  by (simp add: keyed_def integer_keys_def new_database_def empty_db_def)

lemma insert_scene_keys: "sql_insert_scene vs d = Inr d' \<Longrightarrow> integer_keys d' = integer_keys d"
  by (auto simp: sql_insert_scene_def Let_def integer_keys_def split: list.splits)

lemma insert_detection_keys:
  "sql_insert_detection vs d = Inr d' \<Longrightarrow> integer_keys d' = integer_keys d"
  by (auto simp: sql_insert_detection_def Let_def integer_keys_def split: list.splits if_splits)

lemma insert_annotation_keys:
  "sql_insert_annotation vs d = Inr d' \<Longrightarrow> integer_keys d' = integer_keys d"
  by (auto simp: sql_insert_annotation_def Let_def integer_keys_def split: list.splits if_splits)

lemma bind_params_int:
  "bind_params (PInt i # ps) = Inr vs \<Longrightarrow> \<exists>rest. vs = SInt i # rest"
  by (auto simp: bind_param_def split: sum.splits)

lemma insert_description_keys:
  assumes "bind_params (PInt i # ps) = Inr vs" and "integer_keys d"
    and "sql_insert_description vs d = Inr d'"
  shows "integer_keys d'"
proof -
  from bind_params_int [OF assms(1)] obtain rest where "vs = SInt i # rest"
    by blast
  with assms(2,3) show ?thesis
    by (auto simp: sql_insert_description_def Let_def integer_keys_def is_integer_def
        split: list.splits if_splits)
qed

lemma insert_dataset_keys:
  assumes "bind_params (PInt i # ps) = Inr vs" and "integer_keys d"
    and "sql_insert_dataset vs d = Inr d'"
  shows "integer_keys d'"
proof -
  from bind_params_int [OF assms(1)] obtain rest where "vs = SInt i # rest"
    by blast
  with assms(2,3) show ?thesis
    by (auto simp: sql_insert_dataset_def integer_keys_def is_integer_def
        split: list.splits if_splits)
qed

lemma delete_scene_keys:
  "integer_keys d \<Longrightarrow> sql_delete_scene vs d = Inr d' \<Longrightarrow> integer_keys d'"
  by (auto simp: sql_delete_scene_def Let_def integer_keys_def list_all_iff split: list.splits)

lemma delete_detection_keys:
  "sql_delete_detection vs d = Inr d' \<Longrightarrow> integer_keys d' = integer_keys d"
  by (auto simp: sql_delete_detection_def integer_keys_def split: list.splits)

lemma delete_annotation_keys:
  "sql_delete_annotation vs d = Inr d' \<Longrightarrow> integer_keys d' = integer_keys d"
  by (auto simp: sql_delete_annotation_def integer_keys_def split: list.splits)

lemma update_scenes_keys:
  "sql_update_scenes keys vs d = Inr d' \<Longrightarrow> integer_keys d' = integer_keys d"
  by (auto simp: sql_update_scenes_def Let_def integer_keys_def split: if_splits option.splits)

lemma update_detections_keys:
  "sql_update_detections keys vs d = Inr d' \<Longrightarrow> integer_keys d' = integer_keys d"
  by (auto simp: sql_update_detections_def Let_def integer_keys_def
      split: if_splits option.splits)

lemma update_annotations_keys:
  "sql_update_annotations keys vs d = Inr d' \<Longrightarrow> integer_keys d' = integer_keys d"
  by (auto simp: sql_update_annotations_def Let_def integer_keys_def
      split: if_splits option.splits)

lemma commit_keyed: "keyed c \<Longrightarrow> keyed (commit c)"
  by (simp add: keyed_def commit_def)

lemma rollback_keyed: "keyed c \<Longrightarrow> keyed (rollback c)"
  by (simp add: keyed_def rollback_def)

lemma with_conn_keyed: "keyed (snd (body c)) \<Longrightarrow> keyed (snd (with_conn body c))"
  by (auto simp: with_conn_def commit_keyed rollback_keyed split: prod.splits sum.splits)

lemma execute_keyed:
  assumes "\<And>vs d d'. bind_params ps = Inr vs \<Longrightarrow> integer_keys d \<Longrightarrow> stmt vs d = Inr d' \<Longrightarrow>
      integer_keys d'"
    and "keyed c"
  shows "keyed (snd (execute stmt ps c))"
  using assms by (auto simp: execute_def keyed_def split: sum.splits)

lemma executemany_keyed:
  assumes "\<And>ps vs d d'. ps \<in> set pss \<Longrightarrow> bind_params ps = Inr vs \<Longrightarrow> integer_keys d \<Longrightarrow>
      stmt vs d = Inr d' \<Longrightarrow> integer_keys d'"
    and "keyed c"
  shows "keyed (snd (executemany stmt pss c))"
  using assms
proof (induction pss arbitrary: c)
  case Nil
  then show ?case by simp
next
  case (Cons ps pss)
  have step: "keyed (snd (execute stmt ps c))"
    by (rule execute_keyed [OF Cons.prems(1) Cons.prems(2)]) simp_all
  show ?case
  proof (cases "execute stmt ps c")
    case (Pair r c1)
    with step have "keyed c1" by simp
    then have "keyed (snd (executemany stmt pss c1))"
      by (rule Cons.IH [rotated]) (rule Cons.prems(1), simp_all)
    with Pair step show ?thesis
      by (cases r) simp_all
  qed
qed

lemma execute_prepared_keyed:
  assumes "\<And>vs d d'. stmt vs d = Inr d' \<Longrightarrow> integer_keys d' = integer_keys d" and "keyed c"
  shows "keyed (snd (execute_prepared prep stmt ps c))"
proof (cases prep)
  case None
  have "keyed (snd (execute stmt ps c))"
    by (rule execute_keyed [OF _ assms(2)]) (simp add: assms(1))
  with None show ?thesis by (simp add: execute_prepared_def)
next
  case (Some e)
  with assms(2) show ?thesis by (simp add: execute_prepared_def)
qed

lemma add_scene_keyed:
  assumes "keyed c"
  shows "keyed (snd (add_scene m c))"
proof -
  have "keyed (snd (execute sql_insert_scene ps c))" for ps
    by (rule execute_keyed [OF _ assms]) (simp add: insert_scene_keys)
  then have "keyed c'" if "execute sql_insert_scene ps c = (r, c')" for ps r c'
    using that by (metis snd_conv)
  then show ?thesis
    using assms by (auto simp: add_scene_def split: sum.splits prod.splits)
qed

lemma add_detections_keyed:
  assumes "keyed c"
  shows "keyed (snd (add_detections s dets c))"
proof (cases "all_detection_values s dets")
  case (Inl e)
  with assms show ?thesis by (simp add: add_detections_def)
next
  case (Inr vals)
  have "keyed (snd (with_conn (executemany sql_insert_detection vals) c))"
    by (intro with_conn_keyed executemany_keyed [OF _ assms]) (simp add: insert_detection_keys)
  with Inr show ?thesis by (simp add: add_detections_def)
qed

lemma add_annotation_keyed:
  assumes "keyed c"
  shows "keyed (snd (add_annotation s a c))"
proof (cases "get_item a ''label_type''")
  case (Inl e)
  with assms show ?thesis by (simp add: add_annotation_def)
next
  case (Inr lt)
  have "keyed (snd (with_conn (execute sql_insert_annotation ps) c))" for ps
    by (intro with_conn_keyed execute_keyed [OF _ assms]) (simp add: insert_annotation_keys)
  with Inr show ?thesis by (simp add: add_annotation_def)
qed

lemma assign_to_dataset_keyed:
  assumes "keyed c"
  shows "keyed (snd (assign_to_dataset ids dtype c))"
  unfolding assign_to_dataset_def
proof (intro with_conn_keyed executemany_keyed [OF _ assms])
  fix ps vs d d'
  assume "ps \<in> set (map (\<lambda>sid. [PInt sid, PStr dtype]) ids)"
    and "bind_params ps = Inr vs" and "integer_keys d" and "sql_insert_dataset vs d = Inr d'"
  then show "integer_keys d'"
    by (auto intro: insert_dataset_keys)
qed

lemma add_scene_description_keyed:
  assumes "keyed c"
  shows "keyed (snd (add_scene_description s descr conf mv c))"
  unfolding add_scene_description_def
  by (intro with_conn_keyed execute_keyed [OF _ assms]) (rule insert_description_keys)

lemma update_one_keyed:
  assumes "keyed c"
  shows "keyed (snd (update_one scn c))"
proof -
  have scene: "keyed c1" if "add_scene m c = (r, c1)" for m r c1
    using add_scene_keyed [OF assms, of m] that by simp
  have dets: "keyed c2" if "add_detections s ds c1 = (r, c2)" "keyed c1"
    for s ds c1 r c2
    using add_detections_keyed [OF that(2), of s ds] that(1) by simp
  show ?thesis
    using assms
    by (auto simp: update_one_def split: sum.splits prod.splits pyval.splits if_splits
        dest!: scene dest: dets intro!: add_scene_description_keyed)
qed

lemma update_all_keyed: "keyed c \<Longrightarrow> keyed (snd (update_all xs c))"
proof (induction xs arbitrary: c)
  case Nil
  then show ?case by simp
next
  case (Cons x xs)
  from update_one_keyed [OF Cons.prems, of x] Cons.IH show ?case
    by (auto split: prod.splits sum.splits)
qed

lemma incremental_update_keyed: "keyed c \<Longrightarrow> keyed (snd (incremental_update xs c))"
  unfolding incremental_update_def
  by (intro with_conn_keyed update_all_keyed)

lemma create_scene_keyed: "keyed c \<Longrightarrow> keyed (snd (create_scene m c))"
  by (simp add: create_scene_def add_scene_keyed)

lemma update_scene_keyed: "keyed c \<Longrightarrow> keyed (snd (update_scene i u c))"
  unfolding update_scene_def
  by (intro with_conn_keyed execute_prepared_keyed) (rule update_scenes_keys)

lemma update_detection_keyed: "keyed c \<Longrightarrow> keyed (snd (update_detection i u c))"
  unfolding update_detection_def
  by (intro with_conn_keyed execute_prepared_keyed) (rule update_detections_keys)

lemma update_annotation_keyed: "keyed c \<Longrightarrow> keyed (snd (update_annotation i u c))"
  unfolding update_annotation_def
  by (intro with_conn_keyed execute_prepared_keyed) (rule update_annotations_keys)

lemma delete_scene_keyed:
  assumes "keyed c"
  shows "keyed (snd (delete_scene i c))"
  unfolding delete_scene_def
  by (intro with_conn_keyed execute_keyed [OF _ assms]) (rule delete_scene_keys)

lemma delete_detection_keyed:
  assumes "keyed c"
  shows "keyed (snd (delete_detection i c))"
  unfolding delete_detection_def
  by (intro with_conn_keyed execute_keyed [OF _ assms]) (simp add: delete_detection_keys)

lemma delete_annotation_keyed:
  assumes "keyed c"
  shows "keyed (snd (delete_annotation i c))"
  unfolding delete_annotation_def
  by (intro with_conn_keyed execute_keyed [OF _ assms]) (simp add: delete_annotation_keys)

lemma keyed_working: "keyed c \<Longrightarrow> integer_keys (working c)"
  by (simp add: keyed_def)

lemma example_library_keyed: "keyed example_library"
  unfolding example_library_def
  by (intro assign_to_dataset_keyed add_scene_description_keyed
      create_scene_keyed keyed_new_database)

end
